theory Spec2Isabelle
  imports Complex_Main "HOL-Library.AList"
begin

section \<open>The Solution analyzer of MCF\_lib\_ext.py\<close>

text \<open>
  The embedding follows class \<open>Solution\<close> of \<open>MCF_lib_ext.py\<close> and the loader
  \<open>load_solution\<close> of \<open>validator_ext.py\<close>.

  \<^item> Python floats (volumes, distances, tariffs) are exact reals: rounding of the
    machine arithmetic is outside the model.
  \<^item> A Python dict is an association list in insertion order with distinct keys; a pandas
    table is the list of its rows, each paired with its index value.
  \<^item> An exception is a value \<open>Inl e\<close> of \<open>error + 'a\<close>.
  \<^item> The messages passed to \<open>logger.critical\<close> are collected in a list.
\<close>

subsection \<open>Data\<close>

datatype error = ZeroDivisionError | ValueError | IndexError | FileNotFoundError

text \<open>One entry of \<open>paths\<close>: a dict with the keys src, dst, volume, path\_nodes.\<close>

record 'n path =
  src :: 'n
  dst :: 'n
  volume :: real
  path_nodes :: "'n list"

text \<open>
  One row of \<open>matrix_df\<close> (indexed by (src, dst)); the columns distance and time carry
  the prefix \<open>row_\<close> here because the leg dict has keys of the same name.
\<close>

record edge_row =
  row_distance :: real
  row_time :: real
  price_per_km :: real

text \<open>One row of \<open>offices_df\<close> (indexed by office\_id).\<close>

record office_row =
  transfer_price :: real
  transfer_max :: real

text \<open>
  A transport leg as the first loop of \<open>_reconstruct_transport_legs_from_paths\<close> builds
  it, and the leg with the keys vehicles and sum\_cost that the second loop adds.
\<close>

record 'n raw_leg =
  distance :: real
  time :: real
  cost_per_km :: real
  sum_volume :: real
  reqs :: "(('n \<times> 'n) \<times> real) list"

record 'n leg = "'n raw_leg" +
  vehicles :: int
  sum_cost :: real

datatype direction = Inbound | Outbound

text \<open>
  A finding of the node capacity check: the node, the direction, the flow and
  \<open>transfer_max\<close>, the four values the message string is formatted from.
\<close>

datatype 'n transfer_violation = TransferViolation 'n direction real real

text \<open>
  A finding of the coverage check: src, dst, expected volume and actual volume, the
  four values the message string is formatted from.
\<close>

datatype 'n coverage_error = CoverageError 'n 'n real real

text \<open>The value of \<open>cost_per_cubic_meter\<close>: a float or \<open>float('inf')\<close>.\<close>

datatype py_float = Finite real | PosInf

type_synonym 'n matrix_df = "(('n \<times> 'n) \<times> edge_row) list"
type_synonym 'n offices_df = "('n \<times> office_row) list"

text \<open>
  The attributes of a \<open>Solution\<close> object. The dict \<open>self.reqs\<close> is the field
  \<open>sol_reqs\<close> (the leg dict already has a key reqs), and \<open>critical_log\<close> lists the
  edges for which \<open>logger.critical\<close> was called during construction.
\<close>

record 'n solution =
  paths :: "'n path list"
  vehicle_capacity :: real
  matrix_df :: "'n matrix_df"
  offices_df :: "'n offices_df option"
  transport_legs :: "(('n \<times> 'n) \<times> 'n leg) list"
  sol_reqs :: "(('n \<times> 'n) \<times> real) list"
  total_volume :: real
  total_vehicles :: int
  total_distance :: real
  total_time :: real
  transport_cost :: real
  transfer_cost :: real
  transfer_violations :: "'n transfer_violation list"
  total_cost :: real
  avg_delivery_time_per_req :: real
  avg_delivery_time_per_volume :: real
  paths_per_req :: real
  vehicle_utilization :: real
  underloaded_legs :: nat
  cost_per_cubic_meter :: py_float
  critical_log :: "('n \<times> 'n) list"

subsection \<open>Dict helpers\<close>

text \<open>\<open>d.get(k, 0)\<close>, and \<open>d[k] += v\<close> on a \<open>defaultdict\<close> of numbers.\<close>

definition get0 :: "('k \<times> real) list \<Rightarrow> 'k \<Rightarrow> real" where
  "get0 d k = (case map_of d k of None \<Rightarrow> 0 | Some x \<Rightarrow> x)"

definition add_to :: "'k \<Rightarrow> real \<Rightarrow> ('k \<times> real) list \<Rightarrow> ('k \<times> real) list" where
  "add_to k v d = AList.update k (get0 d k + v) d"

subsection \<open>\_reconstruct\_reqs\_from\_paths\<close>

definition reconstruct_reqs_from_paths :: "'n path list \<Rightarrow> (('n \<times> 'n) \<times> real) list" where
  "reconstruct_reqs_from_paths ps = fold (\<lambda>p. add_to (src p, dst p) (volume p)) ps []"

subsection \<open>\_reconstruct\_transport\_legs\_from\_paths\<close>

text \<open>\<open>[(path_nodes[i], path_nodes[i+1]) for i in range(len(path_nodes)-1)]\<close>\<close>

definition edges_of :: "'n list \<Rightarrow> ('n \<times> 'n) list" where
  "edges_of ns = map (\<lambda>i. (ns ! i, ns ! (i + 1))) [0 ..< length ns - 1]"

definition new_leg :: "edge_row \<Rightarrow> 'n raw_leg" where
  "new_leg e = \<lparr>distance = row_distance e, time = row_time e, cost_per_km = price_per_km e,
     sum_volume = 0, reqs = []\<rparr>"

text \<open>The two statements after the \<open>if\<close>: append to reqs, add to sum\_volume.\<close>

definition add_contribution ::
  "('n \<times> 'n) \<Rightarrow> ('n \<times> 'n) \<Rightarrow> real \<Rightarrow> (('n \<times> 'n) \<times> 'n raw_leg) list \<Rightarrow> (('n \<times> 'n) \<times> 'n raw_leg) list" where
  "add_contribution key rk vol legs =
     AList.map_entry key (\<lambda>l. l\<lparr>reqs := reqs l @ [(rk, vol)], sum_volume := sum_volume l + vol\<rparr>) legs"

text \<open>
  The body of the loop over the edges of one path. A \<open>KeyError\<close> of the lookup in
  \<open>matrix_df\<close> is caught: the edge is logged and skipped (\<open>continue\<close>).
\<close>

fun edge_step ::
  "'n matrix_df \<Rightarrow> ('n \<times> 'n) \<Rightarrow> real \<Rightarrow> ('n \<times> 'n) \<Rightarrow>
   (('n \<times> 'n) \<times> 'n raw_leg) list \<times> ('n \<times> 'n) list \<Rightarrow>
   (('n \<times> 'n) \<times> 'n raw_leg) list \<times> ('n \<times> 'n) list" where
  "edge_step m rk vol key (legs, lg) =
     (case map_of legs key of
        Some l \<Rightarrow> (add_contribution key rk vol legs, lg)
      | None \<Rightarrow>
          (case map_of m key of
             None \<Rightarrow> (legs, lg @ [key])
           | Some e \<Rightarrow> (add_contribution key rk vol (legs @ [(key, new_leg e)]), lg)))"

definition path_step ::
  "'n matrix_df \<Rightarrow> 'n path \<Rightarrow>
   (('n \<times> 'n) \<times> 'n raw_leg) list \<times> ('n \<times> 'n) list \<Rightarrow>
   (('n \<times> 'n) \<times> 'n raw_leg) list \<times> ('n \<times> 'n) list" where
  "path_step m p st = fold (edge_step m (src p, dst p) (volume p)) (edges_of (path_nodes p)) st"

definition raw_legs_from_paths ::
  "'n matrix_df \<Rightarrow> 'n path list \<Rightarrow> (('n \<times> 'n) \<times> 'n raw_leg) list \<times> ('n \<times> 'n) list" where
  "raw_legs_from_paths m ps = fold (path_step m) ps ([], [])"

text \<open>
  The second loop: \<open>math.ceil(leg['sum_volume'] / self.vehicle_capacity)\<close> raises
  \<open>ZeroDivisionError\<close> when the capacity is zero.
\<close>

definition set_vehicles_and_cost :: "real \<Rightarrow> 'n raw_leg \<Rightarrow> 'n leg" where
  "set_vehicles_and_cost vcap l =
     (let v = \<lceil>sum_volume l / vcap\<rceil> in
        \<lparr>distance = distance l, time = time l, cost_per_km = cost_per_km l,
         sum_volume = sum_volume l, reqs = reqs l,
         vehicles = v, sum_cost = of_int v * cost_per_km l * distance l / 1000\<rparr>)"

definition finish_leg :: "real \<Rightarrow> 'n raw_leg \<Rightarrow> error + 'n leg" where
  "finish_leg vcap l =
     (if vcap = 0 then Inl ZeroDivisionError else Inr (set_vehicles_and_cost vcap l))"

fun finish_legs :: "real \<Rightarrow> ('k \<times> 'n raw_leg) list \<Rightarrow> error + ('k \<times> 'n leg) list" where
  "finish_legs vcap [] = Inr []"
| "finish_legs vcap ((k, l) # rest) =
     (case finish_leg vcap l of
        Inl e \<Rightarrow> Inl e
      | Inr l' \<Rightarrow> (case finish_legs vcap rest of Inl e \<Rightarrow> Inl e | Inr r \<Rightarrow> Inr ((k, l') # r)))"

definition reconstruct_transport_legs_from_paths ::
  "'n matrix_df \<Rightarrow> real \<Rightarrow> 'n path list \<Rightarrow> error + ((('n \<times> 'n) \<times> 'n leg) list \<times> ('n \<times> 'n) list)" where
  "reconstruct_transport_legs_from_paths m vcap ps =
     (case raw_legs_from_paths m ps of
        (legs, lg) \<Rightarrow> (case finish_legs vcap legs of Inl e \<Rightarrow> Inl e | Inr fl \<Rightarrow> Inr (fl, lg)))"

subsection \<open>\_calculate\_transfer\_costs\<close>

text \<open>\<open>path_nodes[1:-1] if len(path_nodes) > 2 else []\<close>\<close>

definition transit_nodes :: "'n list \<Rightarrow> 'n list" where
  "transit_nodes ns = (if length ns > 2 then butlast (tl ns) else [])"

text \<open>The state of the first loop: total\_transfer\_cost, node\_in\_flow, node\_out\_flow.\<close>

fun transit_step ::
  "'n offices_df option \<Rightarrow> real \<Rightarrow> 'n \<Rightarrow>
   real \<times> ('n \<times> real) list \<times> ('n \<times> real) list \<Rightarrow> real \<times> ('n \<times> real) list \<times> ('n \<times> real) list" where
  "transit_step od vol n (tc, nin, nout) =
     ((case od of
         None \<Rightarrow> tc
       | Some offs \<Rightarrow> (case map_of offs n of None \<Rightarrow> tc | Some r \<Rightarrow> tc + vol * transfer_price r)),
      add_to n vol nin, add_to n vol nout)"

definition transit_flows ::
  "'n offices_df option \<Rightarrow> 'n path list \<Rightarrow> real \<times> ('n \<times> real) list \<times> ('n \<times> real) list" where
  "transit_flows od ps =
     fold (\<lambda>p st. fold (transit_step od (volume p)) (transit_nodes (path_nodes p)) st) ps (0, [], [])"

definition node_violations ::
  "('n \<times> real) list \<Rightarrow> ('n \<times> real) list \<Rightarrow> 'n \<times> office_row \<Rightarrow> 'n transfer_violation list" where
  "node_violations nin nout nr =
     (case nr of (node_id, row) \<Rightarrow>
        (if map_of nin node_id \<noteq> None \<and> get0 nin node_id > transfer_max row
         then [TransferViolation node_id Inbound (get0 nin node_id) (transfer_max row)] else []) @
        (if map_of nout node_id \<noteq> None \<and> get0 nout node_id > transfer_max row
         then [TransferViolation node_id Outbound (get0 nout node_id) (transfer_max row)] else []))"

definition calculate_transfer_costs ::
  "'n offices_df option \<Rightarrow> 'n path list \<Rightarrow> real \<times> 'n transfer_violation list" where
  "calculate_transfer_costs od ps =
     (case transit_flows od ps of
        (tc, nin, nout) \<Rightarrow>
          (tc, case od of None \<Rightarrow> [] | Some offs \<Rightarrow> concat (map (node_violations nin nout) offs)))"

subsection \<open>count\_underloaded\_legs and \_compute\_metrics\<close>

definition count_underloaded_legs :: "real \<Rightarrow> real \<Rightarrow> ('k \<times> 'n leg) list \<Rightarrow> nat" where
  "count_underloaded_legs threshold vcap legs =
     length (filter (\<lambda>(k, l). sum_volume l < threshold * vcap) legs)"

text \<open>
  Python's true division raises \<open>ZeroDivisionError\<close> on a zero divisor;
  \<open>try_bind\<close> passes the first exception on, as a sequence of statements does.
\<close>

definition py_div :: "real \<Rightarrow> real \<Rightarrow> error + real" where
  "py_div a b = (if b = 0 then Inl ZeroDivisionError else Inr (a / b))"

definition try_bind :: "error + 'a \<Rightarrow> ('a \<Rightarrow> error + 'b) \<Rightarrow> error + 'b" where
  "try_bind r f = (case r of Inl e \<Rightarrow> Inl e | Inr x \<Rightarrow> f x)"

text \<open>
  \<open>__init__\<close> with \<open>_compute_metrics\<close>: the legs first, then the request aggregate,
  then the metrics in the order of the source; every division is a \<open>py_div\<close> under
  the guard the source gives it.
\<close>

definition Solution_init ::
  "'n path list \<Rightarrow> real \<Rightarrow> 'n matrix_df \<Rightarrow> 'n offices_df option \<Rightarrow> error + 'n solution" where
  "Solution_init ps vcap m od =
     (case reconstruct_transport_legs_from_paths m vcap ps of
        Inl e \<Rightarrow> Inl e
      | Inr (legs, lg) \<Rightarrow>
          (let rq = reconstruct_reqs_from_paths ps;
               tvol = sum_list (map volume ps);
               tveh = sum_list (map (\<lambda>(k, l). vehicles l) legs);
               tdist = sum_list (map (\<lambda>(k, l). distance l * of_int (vehicles l)) legs);
               ttime = sum_list (map (\<lambda>(k, l). time l * of_int (vehicles l)) legs);
               tpc = sum_list (map (\<lambda>(k, l). sum_cost l) legs);
               tr = calculate_transfer_costs od ps;
               tcost = tpc + fst tr;
               total_capacity = of_int tveh * vcap
           in
           try_bind (if rq \<noteq> [] then py_div ttime (of_nat (length rq)) else Inr 0) (\<lambda>per_req.
           try_bind (if sum_list (map snd rq) > 0 then py_div ttime (sum_list (map snd rq)) else Inr 0)
             (\<lambda>per_volume.
           try_bind (if rq \<noteq> [] then py_div (of_nat (length ps)) (of_nat (length rq)) else Inr 0)
             (\<lambda>per_req_paths.
           try_bind (if total_capacity > 0
                     then try_bind (py_div tvol total_capacity) (\<lambda>q. Inr (q * 100)) else Inr 0)
             (\<lambda>load.
           try_bind (if tvol > 0 then try_bind (py_div tcost tvol) (\<lambda>q. Inr (Finite q))
                     else Inr PosInf)
             (\<lambda>per_cubic_meter.
             Inr \<lparr>paths = ps, vehicle_capacity = vcap, matrix_df = m, offices_df = od,
                transport_legs = legs, sol_reqs = rq,
                total_volume = tvol, total_vehicles = tveh, total_distance = tdist,
                total_time = ttime, transport_cost = tpc,
                transfer_cost = fst tr, transfer_violations = snd tr, total_cost = tcost,
                avg_delivery_time_per_req = per_req,
                avg_delivery_time_per_volume = per_volume,
                paths_per_req = per_req_paths,
                vehicle_utilization = min load 100,
                underloaded_legs = count_underloaded_legs (3 / 10) vcap legs,
                cost_per_cubic_meter = per_cubic_meter,
                critical_log = lg\<rparr>)))))))"

subsection \<open>validate\_coverage\<close>

definition validate_coverage ::
  "'n solution \<Rightarrow> (('n \<times> 'n) \<times> real) list \<Rightarrow> 'n coverage_error list" where
  "validate_coverage s df_tare =
     (let actual = fold (\<lambda>p. add_to (src p, dst p) (volume p)) (paths s) []
      in concat (map (\<lambda>((sr, ds), exp_vol).
           let act_vol = get0 actual (sr, ds)
           in if \<bar>act_vol - exp_vol\<bar> > 1 / 1000 then [CoverageError sr ds exp_vol act_vol] else [])
         df_tare))"

subsection \<open>load\_from\_external\_format\<close>

text \<open>
  The external solution format: \<open>data['flows']\<close> is a list of flows, each with the keys
  src\_office\_id, dst\_office\_id, avg\_day\_polybox\_qty and legs, a leg having the keys
  from\_office\_id and to\_office\_id.
\<close>

record 'n ext_leg =
  from_office_id :: 'n
  to_office_id :: 'n

record 'n ext_flow =
  src_office_id :: 'n
  dst_office_id :: 'n
  avg_day_polybox_qty :: real
  legs :: "'n ext_leg list"

text \<open>
  The body of the loop over the flows. \<open>legs[0]\<close> raises \<open>IndexError\<close> on an empty
  list; a path whose ends are not src and dst raises \<open>ValueError\<close>. The node list built
  here is never empty, so \<open>path_nodes[0]\<close> and \<open>path_nodes[-1]\<close> are its head and
  its last element.
\<close>

definition flow_to_path :: "'n ext_flow \<Rightarrow> error + 'n path" where
  "flow_to_path f =
     (case legs f of
        [] \<Rightarrow> Inl IndexError
      | l0 # _ \<Rightarrow>
          (let pn = [from_office_id l0] @ map to_office_id (legs f)
           in if hd pn \<noteq> src_office_id f \<or> last pn \<noteq> dst_office_id f then Inl ValueError
              else Inr \<lparr>src = src_office_id f, dst = dst_office_id f,
                        volume = avg_day_polybox_qty f, path_nodes = pn\<rparr>))"

fun flows_to_paths :: "'n ext_flow list \<Rightarrow> error + 'n path list" where
  "flows_to_paths [] = Inr []"
| "flows_to_paths (f # fs) =
     (case flow_to_path f of
        Inl e \<Rightarrow> Inl e
      | Inr p \<Rightarrow> (case flows_to_paths fs of Inl e \<Rightarrow> Inl e | Inr ps \<Rightarrow> Inr (p # ps)))"

text \<open>
  \<open>data\<close> is the value of the key flows, or \<open>None\<close> when the dict has no such key
  (\<open>data.get('flows', [])\<close>).
\<close>

definition load_from_external_format ::
  "'n ext_flow list option \<Rightarrow> 'n matrix_df \<Rightarrow> 'n offices_df option \<Rightarrow> real \<Rightarrow> error + 'n solution" where
  "load_from_external_format data m od vcap =
     (case flows_to_paths (case data of None \<Rightarrow> [] | Some fl \<Rightarrow> fl) of
        Inl e \<Rightarrow> Inl e
      | Inr ps \<Rightarrow> Solution_init ps vcap m od)"

subsection \<open>Python texts: str and eval of a node list\<close>

text \<open>
  A node id as Python holds it: an integer office id, or a text. Indexing a text gives
  one-character texts.
\<close>

datatype node_id = Office int | Str string

text \<open>
  \<open>str\<close> of a Python int, \<open>repr\<close> of a node id (escapes inside a text are not
  modelled) and \<open>str\<close> of a list, which is what pandas writes into the cell of a
  list-valued column.
\<close>

definition digit_of :: "nat \<Rightarrow> char" where
  "digit_of k = char_of (48 + k)"

definition is_digit :: "char \<Rightarrow> bool" where
  "is_digit c \<longleftrightarrow> 48 \<le> (of_char c :: nat) \<and> (of_char c :: nat) \<le> 57"

definition digit_val :: "char \<Rightarrow> nat" where
  "digit_val c = of_char c - 48"

function str_nat :: "nat \<Rightarrow> string" where
  "str_nat n = (if n < 10 then [digit_of n] else str_nat (n div 10) @ [digit_of (n mod 10)])"
  by pat_completeness auto
termination
  by (relation "measure id") auto

declare str_nat.simps [simp del]

definition py_str_int :: "int \<Rightarrow> string" where
  "py_str_int i = (if i < 0 then CHR ''-'' # str_nat (nat (- i)) else str_nat (nat i))"

fun py_repr :: "node_id \<Rightarrow> string" where
  "py_repr (Office i) = py_str_int i"
| "py_repr (Str s) = [CHR 0x27] @ s @ [CHR 0x27]"

fun join_comma :: "string list \<Rightarrow> string" where
  "join_comma [] = []"
| "join_comma [w] = w"
| "join_comma (w # v # ws) = w @ '', '' @ join_comma (v # ws)"

definition py_str_list :: "node_id list \<Rightarrow> string" where
  "py_str_list ns = ''['' @ join_comma (map py_repr ns) @ '']''"

text \<open>
  \<open>eval\<close> on the texts that are a list of integer literals in the layout \<open>str\<close>
  writes: a decimal literal has no leading zero, a minus sign may precede it, the items
  are separated by a comma and a blank. On any other text the model gives \<open>None\<close>,
  as if \<open>eval\<close> raised.
\<close>

definition nat_literal :: "string \<Rightarrow> nat option" where
  "nat_literal ds =
     (if ds \<noteq> [] \<and> list_all is_digit ds \<and> (length ds = 1 \<or> hd ds \<noteq> CHR ''0'')
      then Some (foldl (\<lambda>a c. 10 * a + digit_val c) 0 ds) else None)"

definition int_literal :: "string \<Rightarrow> int option" where
  "int_literal s =
     (if s \<noteq> [] \<and> hd s = CHR ''-'' then map_option (\<lambda>n. - int n) (nat_literal (tl s))
      else map_option int (nat_literal s))"

function split_comma :: "string \<Rightarrow> string list" where
  "split_comma [] = [[]]"
| "split_comma (c # cs) =
     (if c = CHR '','' \<and> cs \<noteq> [] \<and> hd cs = CHR '' '' then [] # split_comma (tl cs)
      else (case split_comma cs of w # ws \<Rightarrow> (c # w) # ws | [] \<Rightarrow> [[c]]))"
  by pat_completeness auto
termination
  by (relation "measure length") auto

definition py_eval_node_list :: "string \<Rightarrow> node_id list option" where
  "py_eval_node_list txt =
     (case txt of
        [] \<Rightarrow> None
      | c # cs \<Rightarrow>
          if c = CHR ''['' \<and> cs \<noteq> [] \<and> last cs = CHR '']''
          then (if butlast cs = [] then Some []
                else those (map (\<lambda>w. map_option Office (int_literal w)) (split_comma (butlast cs))))
          else None)"

subsection \<open>save\_to\_csv, load\_from\_csv and load\_solution\<close>

text \<open>
  The table paths.csv has the columns src, dst, volume and path\_nodes. The cells of
  src, dst and volume are taken to be read back as they were written; the cell of
  path\_nodes is the text \<open>str\<close> gives for the node list, and is read back as that
  text. A file is \<open>None\<close> when it does not exist.
\<close>

record csv_row =
  row_src :: node_id
  row_dst :: node_id
  row_volume :: real
  row_path_nodes :: string

text \<open>
  The part of \<open>save_to_csv\<close> that writes paths.csv: nothing is written for an empty
  flow set (\<open>if self.paths:\<close>). transport\_legs.csv and summary.csv are written too, but
  no loader reads them.
\<close>

definition save_to_csv_paths :: "node_id solution \<Rightarrow> csv_row list option" where
  "save_to_csv_paths s =
     (if paths s \<noteq> []
      then Some (map (\<lambda>p. \<lparr>row_src = src p, row_dst = dst p, row_volume = volume p,
                            row_path_nodes = py_str_list (path_nodes p)\<rparr>) (paths s))
      else None)"

text \<open>
  \<open>load_from_csv\<close> raises \<open>ValueError\<close> when the file does not exist. Otherwise the
  rows become the path dicts as they are, the path\_nodes of a row being its text: the
  constructor then indexes the text, so that its nodes are the one-character texts.
\<close>

definition load_from_csv ::
  "csv_row list option \<Rightarrow> real \<Rightarrow> node_id matrix_df \<Rightarrow> node_id offices_df option \<Rightarrow>
   error + node_id solution" where
  "load_from_csv file vcap m od =
     (case file of
        None \<Rightarrow> Inl ValueError
      | Some rows \<Rightarrow>
          Solution_init
            (map (\<lambda>r. \<lparr>src = row_src r, dst = row_dst r, volume = row_volume r,
                        path_nodes = map (\<lambda>c. Str [c]) (row_path_nodes r)\<rparr>) rows) vcap m od)"

text \<open>
  The CSV branch of \<open>load_solution\<close> in validator\_ext.py: \<open>pd.read_csv\<close> raises
  \<open>FileNotFoundError\<close> for a missing file; a row whose text does not evaluate is logged
  and dropped; every other row becomes a flow whose legs are the consecutive pairs of
  its nodes.
\<close>

definition row_to_flow :: "csv_row \<Rightarrow> node_id ext_flow list" where
  "row_to_flow r =
     (case py_eval_node_list (row_path_nodes r) of
        None \<Rightarrow> []
      | Some ns \<Rightarrow>
          [\<lparr>src_office_id = row_src r, dst_office_id = row_dst r,
            avg_day_polybox_qty = row_volume r,
            legs = map (\<lambda>i. \<lparr>from_office_id = ns ! i, to_office_id = ns ! (i + 1)\<rparr>)
                     [0 ..< length ns - 1]\<rparr>])"

definition load_solution_csv :: "csv_row list option \<Rightarrow> error + node_id ext_flow list option" where
  "load_solution_csv file =
     (case file of
        None \<Rightarrow> Inl FileNotFoundError
      | Some rows \<Rightarrow> Inr (Some (concat (map row_to_flow rows))))"

subsection \<open>save\_to\_json\<close>

text \<open>
  A solution document is a JSON object; each of the keys flows, paths, transport\_legs
  and metadata is absent (\<open>None\<close>) or holds a value of its kind. \<open>json.dump\<close> and
  \<open>json.load\<close>, the JSON branch of \<open>load_solution\<close>, are taken to give the document
  back as it was. \<open>save_to_json\<close> writes the keys paths, transport\_legs and metadata;
  \<open>load_from_external_format\<close> reads the key flows of the document it is given.
\<close>

record 'n solution_doc =
  doc_flows :: "'n ext_flow list option"
  doc_paths :: "'n path list option"
  doc_transport_legs :: "'n leg list option"
  doc_metadata :: "(string \<times> py_float) list option"

definition save_to_json :: "'n solution \<Rightarrow> 'n solution_doc" where
  "save_to_json s =
     \<lparr>doc_flows = None,
      doc_paths = Some (paths s),
      doc_transport_legs = Some (map snd (transport_legs s)),
      doc_metadata = Some
        [(''vehicle_capacity'', Finite (vehicle_capacity s)),
         (''total_cost'', Finite (total_cost s)),
         (''transport_cost'', Finite (transport_cost s)),
         (''transfer_cost'', Finite (transfer_cost s)),
         (''total_vehicles'', Finite (of_int (total_vehicles s))),
         (''total_distance'', Finite (total_distance s)),
         (''total_volume'', Finite (total_volume s)),
         (''vehicle_utilization'', Finite (vehicle_utilization s)),
         (''cost_per_cubic_meter'', cost_per_cubic_meter s),
         (''avg_delivery_time'', Finite (avg_delivery_time_per_req s))]\<rparr>"

subsection \<open>Notions used in the statements\<close>

text \<open>
  The occurrences of edges in the flow set, in the order the loops visit them: the edge,
  the request key of the flow and its volume.
\<close>

definition edge_events :: "'n path list \<Rightarrow> (('n \<times> 'n) \<times> ('n \<times> 'n) \<times> real) list" where
  "edge_events ps =
     concat (map (\<lambda>p. map (\<lambda>e. (e, (src p, dst p), volume p)) (edges_of (path_nodes p))) ps)"

text \<open>One pass of the loop body, as a function of the occurrence.\<close>

definition event_step ::
  "'n matrix_df \<Rightarrow> ('n \<times> 'n) \<times> ('n \<times> 'n) \<times> real \<Rightarrow>
   (('n \<times> 'n) \<times> 'n raw_leg) list \<times> ('n \<times> 'n) list \<Rightarrow>
   (('n \<times> 'n) \<times> 'n raw_leg) list \<times> ('n \<times> 'n) list" where
  "event_step m ev = edge_step m (fst (snd ev)) (snd (snd ev)) (fst ev)"

text \<open>The leg of edge \<open>k\<close> after the occurrences \<open>evs\<close>, when the edge has the row \<open>e\<close>.\<close>

definition expected_leg :: "edge_row \<Rightarrow> ('n \<times> 'n) \<Rightarrow> (('n \<times> 'n) \<times> ('n \<times> 'n) \<times> real) list \<Rightarrow> 'n raw_leg" where
  "expected_leg e k evs =
     \<lparr>distance = row_distance e, time = row_time e, cost_per_km = price_per_km e,
      sum_volume = sum_list (map (\<lambda>ev. snd (snd ev)) (filter (\<lambda>ev. fst ev = k) evs)),
      reqs = map snd (filter (\<lambda>ev. fst ev = k) evs)\<rparr>"

text \<open>The invariant of the first loop after the occurrences \<open>evs\<close>.\<close>

definition legs_inv ::
  "'n matrix_df \<Rightarrow> (('n \<times> 'n) \<times> ('n \<times> 'n) \<times> real) list \<Rightarrow>
   (('n \<times> 'n) \<times> 'n raw_leg) list \<times> ('n \<times> 'n) list \<Rightarrow> bool" where
  "legs_inv m evs st \<longleftrightarrow>
     distinct (map fst (fst st)) \<and>
     snd st = filter (\<lambda>k. map_of m k = None) (map fst evs) \<and>
     (\<forall>k. map_of (fst st) k =
        (case map_of m k of
           None \<Rightarrow> None
         | Some e \<Rightarrow> if k \<in> fst ` set evs then Some (expected_leg e k evs) else None))"

text \<open>Repeated \<open>d[k] += v\<close>, and the total volume recorded for one key.\<close>

definition accumulate :: "('k \<times> real) list \<Rightarrow> ('k \<times> real) list \<Rightarrow> ('k \<times> real) list" where
  "accumulate evs d = fold (\<lambda>kv. add_to (fst kv) (snd kv)) evs d"

definition volume_at :: "'k \<Rightarrow> ('k \<times> real) list \<Rightarrow> real" where
  "volume_at k evs = sum_list (map snd (filter (\<lambda>kv. fst kv = k) evs))"

text \<open>
  The contributions that the flow set makes to edge \<open>k\<close>, one per occurrence of the
  edge in a path; the request key of a flow; the volume of all flows of one request.
\<close>

definition contributions :: "('n \<times> 'n) \<Rightarrow> 'n path list \<Rightarrow> (('n \<times> 'n) \<times> real) list" where
  "contributions k ps = map snd (filter (\<lambda>ev. fst ev = k) (edge_events ps))"

definition request_key :: "'n path \<Rightarrow> 'n \<times> 'n" where
  "request_key p = (src p, dst p)"

definition request_volume :: "('n \<times> 'n) \<Rightarrow> 'n path list \<Rightarrow> real" where
  "request_volume k ps = sum_list (map volume (filter (\<lambda>p. request_key p = k) ps))"

text \<open>
  The coverage check in the words of the spec: an entry of the reference table exceeds
  the tolerance when the volume of the flows of its request differs from the expected
  volume by more than 1e-3; the finding names the key and both volumes.
\<close>

definition exceeds_tolerance :: "'n path list \<Rightarrow> ('n \<times> 'n) \<times> real \<Rightarrow> bool" where
  "exceeds_tolerance ps entry \<longleftrightarrow> \<bar>request_volume (fst entry) ps - snd entry\<bar> > 1 / 1000"

definition coverage_finding :: "'n path list \<Rightarrow> ('n \<times> 'n) \<times> real \<Rightarrow> 'n coverage_error" where
  "coverage_finding ps entry =
     CoverageError (fst (fst entry)) (snd (fst entry)) (snd entry) (request_volume (fst entry) ps)"

text \<open>
  The transit occurrences of nodes as the loop of \<open>_calculate_transfer_costs\<close> visits
  them, each with the volume of its flow.
\<close>

definition transit_events :: "'n path list \<Rightarrow> ('n \<times> real) list" where
  "transit_events ps =
     concat (map (\<lambda>p. map (\<lambda>n. (n, volume p)) (transit_nodes (path_nodes p))) ps)"

text \<open>
  Transit in the words of the spec: a transit node of a flow is a node of its path that
  is neither the first nor the last one, that is, a node at a position from 1 to
  length - 2. Every flow brings its volume into each of its transit nodes and takes it
  out again, once for every such position.
\<close>

definition interior_nodes :: "'n list \<Rightarrow> 'n list" where
  "interior_nodes ns = map (\<lambda>i. ns ! i) [1 ..< length ns - 1]"

definition is_transit_node :: "'n \<Rightarrow> 'n path list \<Rightarrow> bool" where
  "is_transit_node n ps \<longleftrightarrow> (\<exists>p \<in> set ps. n \<in> set (interior_nodes (path_nodes p)))"

definition inbound_volume :: "'n \<Rightarrow> 'n path list \<Rightarrow> real" where
  "inbound_volume n ps =
     sum_list (map (\<lambda>p. volume p * of_nat (count_list (interior_nodes (path_nodes p)) n)) ps)"

definition outbound_volume :: "'n \<Rightarrow> 'n path list \<Rightarrow> real" where
  "outbound_volume n ps =
     sum_list (map (\<lambda>p. volume p * of_nat (count_list (interior_nodes (path_nodes p)) n)) ps)"

text \<open>One pass of the body of the loop over the transit nodes, as a function of the occurrence.\<close>

definition transit_event_step ::
  "'n offices_df option \<Rightarrow> 'n \<times> real \<Rightarrow>
   real \<times> ('n \<times> real) list \<times> ('n \<times> real) list \<Rightarrow> real \<times> ('n \<times> real) list \<times> ('n \<times> real) list" where
  "transit_event_step od ev = transit_step od (snd ev) (fst ev)"

text \<open>
  The path of a flow of the external format in the words of the spec: the first leg's
  from\_office\_id followed by every leg's to\_office\_id; whether its ends are the flow's
  src and dst; and the path dict made of the flow.
\<close>

definition reconstructed_path :: "'n ext_flow \<Rightarrow> 'n list" where
  "reconstructed_path f = from_office_id (hd (legs f)) # map to_office_id (legs f)"

definition endpoints_match :: "'n ext_flow \<Rightarrow> bool" where
  "endpoints_match f \<longleftrightarrow>
     hd (reconstructed_path f) = src_office_id f \<and> last (reconstructed_path f) = dst_office_id f"

definition path_of_flow :: "'n ext_flow \<Rightarrow> 'n path" where
  "path_of_flow f = \<lparr>src = src_office_id f, dst = dst_office_id f,
     volume = avg_day_polybox_qty f, path_nodes = reconstructed_path f\<rparr>"

text \<open>Some flow has an edge on its path that is in \<open>matrix_df\<close>.\<close>

definition has_resolvable_edge :: "'n matrix_df \<Rightarrow> 'n path list \<Rightarrow> bool" where
  "has_resolvable_edge m ps \<longleftrightarrow>
     (\<exists>p \<in> set ps. \<exists>k \<in> set (edges_of (path_nodes p)). map_of m k \<noteq> None)"

text \<open>
  The row that \<open>save_to_csv\<close> writes for a flow, the flow of the external format that
  \<open>load_solution\<close> makes of the nodes of a path, the shape invariant of a flow in the
  data model of the spec (at least two nodes, from src to dst), and the node ids that
  are office ids.
\<close>

definition row_of_path :: "node_id path \<Rightarrow> csv_row" where
  "row_of_path p = \<lparr>row_src = src p, row_dst = dst p, row_volume = volume p,
     row_path_nodes = py_str_list (path_nodes p)\<rparr>"

definition flow_of_path :: "'n path \<Rightarrow> 'n ext_flow" where
  "flow_of_path p = \<lparr>src_office_id = src p, dst_office_id = dst p,
     avg_day_polybox_qty = volume p,
     legs = map (\<lambda>i. \<lparr>from_office_id = path_nodes p ! i, to_office_id = path_nodes p ! (i + 1)\<rparr>)
              [0 ..< length (path_nodes p) - 1]\<rparr>"

definition well_formed_flow :: "'n path \<Rightarrow> bool" where
  "well_formed_flow p \<longleftrightarrow>
     2 \<le> length (path_nodes p) \<and> hd (path_nodes p) = src p \<and> last (path_nodes p) = dst p"

fun is_office :: "node_id \<Rightarrow> bool" where
  "is_office (Office i) = True"
| "is_office (Str s) = False"

section \<open>Properties\<close>

subsection \<open>Auxiliary facts\<close>

lemma fold_concat_map: "fold f (concat (map g xs)) st = fold (\<lambda>x. fold f (g x)) xs st"
  by (induction xs arbitrary: st) simp_all

lemma raw_legs_events:
  "raw_legs_from_paths m ps = fold (event_step m) (edge_events ps) ([], [])"
proof -
  have "path_step m =
      (\<lambda>p. fold (event_step m) (map (\<lambda>e. (e, (src p, dst p), volume p)) (edges_of (path_nodes p))))"
    by (intro ext) (simp add: path_step_def fold_map comp_def event_step_def)
  then show ?thesis
    by (simp add: raw_legs_from_paths_def edge_events_def fold_concat_map)
qed

lemma legs_inv_step:
  assumes "legs_inv m evs st"
  shows "legs_inv m (evs @ [ev]) (event_step m ev st)"
proof -
  obtain tlegs lg where st: "st = (tlegs, lg)" by (cases st)
  obtain k rk v where ev: "ev = (k, rk, v)" by (cases ev) auto
  from assms st have d: "distinct (map fst tlegs)"
    and l: "lg = filter (\<lambda>k. map_of m k = None) (map fst evs)"
    and c: "\<And>k. map_of tlegs k =
        (case map_of m k of
           None \<Rightarrow> None
         | Some e \<Rightarrow> if k \<in> fst ` set evs then Some (expected_leg e k evs) else None)"
    by (auto simp: legs_inv_def)
  show ?thesis
  proof (cases "map_of m k")
    case None
    then have "map_of tlegs k = None" using c[of k] by simp
    with None show ?thesis
      using d l c unfolding st ev legs_inv_def event_step_def
      by (auto simp: expected_leg_def split: option.splits)
  next
    case (Some e)
    show ?thesis
    proof (cases "k \<in> fst ` set evs")
      case True
      then have "map_of tlegs k = Some (expected_leg e k evs)" using c[of k] Some by simp
      then show ?thesis
        using d l c Some True unfolding st ev legs_inv_def event_step_def
        by (auto simp: expected_leg_def add_contribution_def map_of_map_entry
            AList.distinct_map_entry split: option.splits)
    next
      case False
      then have n: "map_of tlegs k = None" using c[of k] Some by simp
      then have nk: "k \<notin> fst ` set tlegs" by (simp add: map_of_eq_None_iff)
      have f: "filter (\<lambda>ev. fst ev = k) evs = []" using False by (auto simp: filter_empty_conv)
      show ?thesis
        using d l c Some False n nk f unfolding st ev legs_inv_def event_step_def
        by (auto simp: expected_leg_def add_contribution_def map_of_map_entry
            AList.distinct_map_entry new_leg_def split: option.splits)
    qed
  qed
qed

lemma legs_inv_fold: "legs_inv m evs (fold (event_step m) evs ([], []))"
proof (induction evs rule: rev_induct)
  case Nil
  show ?case by (simp add: legs_inv_def split: option.splits)
next
  case (snoc ev evs)
  then show ?case using legs_inv_step[of m evs _ ev] by simp
qed

lemma legs_inv_raw: "legs_inv m (edge_events ps) (raw_legs_from_paths m ps)"
  by (simp add: raw_legs_events legs_inv_fold)

lemma finish_legs_eq:
  "finish_legs vcap tlegs =
     (if vcap = 0 \<and> tlegs \<noteq> [] then Inl ZeroDivisionError
      else Inr (map (\<lambda>(k, l). (k, set_vehicles_and_cost vcap l)) tlegs))"
  by (induction tlegs) (auto simp: finish_leg_def)

lemma distinct_add_to: "distinct (map fst d) \<Longrightarrow> distinct (map fst (add_to k v d))"
  by (simp add: add_to_def AList.distinct_update)

lemma get0_add_to: "get0 (add_to k v d) k' = (if k' = k then get0 d k + v else get0 d k')"
  by (simp add: add_to_def get0_def AList.update_conv')

lemma keys_add_to: "fst ` set (add_to k v d) = insert k (fst ` set d)"
  by (simp add: add_to_def AList.dom_update)

lemma sum_update:
  "distinct (map fst d) \<Longrightarrow>
   sum_list (map snd (AList.update k w d)) = sum_list (map snd d) - get0 d k + w"
proof (induction d)
  case Nil
  show ?case by (simp add: get0_def)
next
  case (Cons a d)
  obtain k' x where a: "a = (k', x)" by (cases a)
  show ?case
  proof (cases "k' = k")
    case True
    then show ?thesis using a by (simp add: get0_def)
  next
    case False
    then show ?thesis using a Cons by (simp add: get0_def)
  qed
qed

lemma sum_add_to:
  "distinct (map fst d) \<Longrightarrow> sum_list (map snd (add_to k v d)) = sum_list (map snd d) + v"
  by (simp add: add_to_def sum_update)

lemma accumulate_props:
  "distinct (map fst d) \<Longrightarrow>
   distinct (map fst (accumulate evs d)) \<and>
   fst ` set (accumulate evs d) = fst ` set d \<union> fst ` set evs \<and>
   sum_list (map snd (accumulate evs d)) = sum_list (map snd d) + sum_list (map snd evs) \<and>
   (\<forall>k. get0 (accumulate evs d) k = get0 d k + volume_at k evs)"
proof (induction evs arbitrary: d)
  case Nil
  then show ?case by (simp add: accumulate_def volume_at_def)
next
  case (Cons ev evs)
  have d': "distinct (map fst (add_to (fst ev) (snd ev) d))"
    using Cons.prems by (rule distinct_add_to)
  have step: "accumulate (ev # evs) d = accumulate evs (add_to (fst ev) (snd ev) d)"
    by (simp add: accumulate_def)
  show ?case
    unfolding step using Cons.IH[OF d']
    by (auto simp: keys_add_to sum_add_to[OF Cons.prems] get0_add_to volume_at_def)
qed

lemma reqs_accumulate:
  "reconstruct_reqs_from_paths ps = accumulate (map (\<lambda>p. ((src p, dst p), volume p)) ps) []"
  by (simp add: reconstruct_reqs_from_paths_def accumulate_def fold_map comp_def)

lemma sum_reqs: "sum_list (map snd (reconstruct_reqs_from_paths ps)) = sum_list (map volume ps)"
  using accumulate_props[of "[]" "map (\<lambda>p. ((src p, dst p), volume p)) ps"]
  by (simp add: reqs_accumulate comp_def)

text \<open>
  The guards of \<open>_compute_metrics\<close> exclude a zero divisor, so no division of the
  metrics raises: the constructor fails only where the legs do.
\<close>

lemma guarded_div:
  "(c \<Longrightarrow> b \<noteq> 0) \<Longrightarrow> (if c then py_div a b else Inr d) = Inr (if c then a / b else d)"
  by (simp add: py_div_def)

lemma Solution_init_unfold:
  "Solution_init ps vcap m od =
     (case reconstruct_transport_legs_from_paths m vcap ps of
        Inl e \<Rightarrow> Inl e
      | Inr (tlegs, lg) \<Rightarrow>
          (let rq = reconstruct_reqs_from_paths ps;
               tvol = sum_list (map volume ps);
               tveh = sum_list (map (\<lambda>(k, l). vehicles l) tlegs);
               tdist = sum_list (map (\<lambda>(k, l). distance l * of_int (vehicles l)) tlegs);
               ttime = sum_list (map (\<lambda>(k, l). time l * of_int (vehicles l)) tlegs);
               tpc = sum_list (map (\<lambda>(k, l). sum_cost l) tlegs);
               tr = calculate_transfer_costs od ps;
               tcost = tpc + fst tr;
               total_capacity = of_int tveh * vcap
           in Inr \<lparr>paths = ps, vehicle_capacity = vcap, matrix_df = m, offices_df = od,
                transport_legs = tlegs, sol_reqs = rq,
                total_volume = tvol, total_vehicles = tveh, total_distance = tdist,
                total_time = ttime, transport_cost = tpc,
                transfer_cost = fst tr, transfer_violations = snd tr, total_cost = tcost,
                avg_delivery_time_per_req =
                  (if rq \<noteq> [] then ttime / of_nat (length rq) else 0),
                avg_delivery_time_per_volume =
                  (if sum_list (map snd rq) > 0 then ttime / sum_list (map snd rq) else 0),
                paths_per_req =
                  (if rq \<noteq> [] then of_nat (length ps) / of_nat (length rq) else 0),
                vehicle_utilization =
                  min (if total_capacity > 0 then tvol / total_capacity * 100 else 0) 100,
                underloaded_legs = count_underloaded_legs (3 / 10) vcap tlegs,
                cost_per_cubic_meter = (if tvol > 0 then Finite (tcost / tvol) else PosInf),
                critical_log = lg\<rparr>))"
proof -
  have 1: "(if rq \<noteq> [] then py_div x (of_nat (length rq)) else Inr 0) =
           Inr (if rq \<noteq> [] then x / of_nat (length rq) else 0)" for rq :: "'b list" and x
    by (rule guarded_div) simp
  have 2: "(if y > 0 then py_div x y else Inr 0) = Inr (if y > 0 then x / y else 0)" for x y
    by (rule guarded_div) simp
  have 3: "(if y > 0 then try_bind (py_div x y) (\<lambda>q. Inr (q * 100)) else Inr 0) =
           Inr (if y > 0 then x / y * 100 else 0)" for x y
    by (simp add: py_div_def try_bind_def)
  have 4: "(if y > 0 then try_bind (py_div x y) (\<lambda>q. Inr (Finite q)) else Inr PosInf) =
           Inr (if y > 0 then Finite (x / y) else PosInf)" for x y
    by (simp add: py_div_def try_bind_def)
  have 5: "try_bind (Inr x) f = f x" for x :: 'c and f :: "'c \<Rightarrow> error + 'd"
    by (simp add: try_bind_def)
  show ?thesis
    unfolding Solution_init_def Let_def 1 2 3 4 5 ..
qed

lemma Solution_init_Inr:
  assumes "Solution_init ps vcap m od = Inr s"
  shows "paths s = ps" "vehicle_capacity s = vcap"
    "sol_reqs s = reconstruct_reqs_from_paths ps"
    "total_volume s = sum_list (map volume ps)"
    "\<exists>lg. reconstruct_transport_legs_from_paths m vcap ps = Inr (transport_legs s, lg)"
    "avg_delivery_time_per_volume s =
       (if sum_list (map snd (sol_reqs s)) > 0 then total_time s / sum_list (map snd (sol_reqs s)) else 0)"
  using assms
  by (auto simp: Solution_init_unfold Let_def split: sum.splits prod.splits)

lemma Solution_init_total: "vcap \<noteq> 0 \<Longrightarrow> \<exists>s. Solution_init ps vcap m od = Inr s"
  by (simp add: Solution_init_unfold reconstruct_transport_legs_from_paths_def finish_legs_eq Let_def
      split: prod.splits)

lemma Solution_init_legs:
  assumes "Solution_init ps vcap m od = Inr s"
  shows "transport_legs s =
           map (\<lambda>(k, l). (k, set_vehicles_and_cost vcap l)) (fst (raw_legs_from_paths m ps))"
    and "critical_log s = snd (raw_legs_from_paths m ps)"
    and "fst (raw_legs_from_paths m ps) \<noteq> [] \<Longrightarrow> vcap \<noteq> 0"
  using assms
  by (auto simp: Solution_init_unfold reconstruct_transport_legs_from_paths_def finish_legs_eq Let_def
      split: sum.splits prod.splits if_splits)

lemma raw_leg_lookup:
  "map_of (fst (raw_legs_from_paths m ps)) k =
     (case map_of m k of
        None \<Rightarrow> None
      | Some e \<Rightarrow> if k \<in> fst ` set (edge_events ps)
                  then Some (expected_leg e k (edge_events ps)) else None)"
  using legs_inv_raw[of m ps] unfolding legs_inv_def by blast

lemma raw_leg_distinct: "distinct (map fst (fst (raw_legs_from_paths m ps)))"
  using legs_inv_raw[of m ps] by (simp add: legs_inv_def)

lemma raw_leg_log:
  "snd (raw_legs_from_paths m ps) = filter (\<lambda>k. map_of m k = None) (map fst (edge_events ps))"
  using legs_inv_raw[of m ps] by (simp add: legs_inv_def)

lemma raw_leg_member:
  assumes "(k, l) \<in> set (fst (raw_legs_from_paths m ps))"
  shows "\<exists>e. map_of m k = Some e \<and> k \<in> fst ` set (edge_events ps) \<and>
             l = expected_leg e k (edge_events ps)"
proof -
  have "map_of (fst (raw_legs_from_paths m ps)) k = Some l"
    using assms raw_leg_distinct[of m ps] by simp
  then show ?thesis
    unfolding raw_leg_lookup by (auto split: option.splits if_splits)
qed

lemma expected_leg_sum: "sum_volume (expected_leg e k evs) = sum_list (map snd (reqs (expected_leg e k evs)))"
  by (simp add: expected_leg_def comp_def)

lemma transport_leg_member:
  assumes "Solution_init ps vcap m od = Inr s" and "(k, l) \<in> set (transport_legs s)"
  shows "\<exists>e. map_of m k = Some e \<and> k \<in> fst ` set (edge_events ps) \<and> vcap \<noteq> 0 \<and>
             l = set_vehicles_and_cost vcap (expected_leg e k (edge_events ps))"
proof -
  from assms obtain r where r: "(k, r) \<in> set (fst (raw_legs_from_paths m ps))"
    and l: "l = set_vehicles_and_cost vcap r"
    by (auto simp: Solution_init_legs(1)[OF assms(1)])
  from r have "fst (raw_legs_from_paths m ps) \<noteq> []" by auto
  then have "vcap \<noteq> 0" by (rule Solution_init_legs(3)[OF assms(1)])
  with raw_leg_member[OF r] l show ?thesis by auto
qed

lemma map_of_transport_legs:
  assumes "Solution_init ps vcap m od = Inr s"
  shows "map_of (transport_legs s) k =
           map_option (set_vehicles_and_cost vcap) (map_of (fst (raw_legs_from_paths m ps)) k)"
  by (simp add: Solution_init_legs(1)[OF assms] map_of_map)

lemma accumulate_get0:
  "distinct (map fst d) \<Longrightarrow> get0 (accumulate evs d) k = get0 d k + volume_at k evs"
  using accumulate_props[of d evs] by blast

lemma get0_reqs: "get0 (reconstruct_reqs_from_paths ps) k = request_volume k ps"
proof -
  have "volume_at k (map (\<lambda>p. ((src p, dst p), volume p)) ps) = request_volume k ps"
    by (simp add: volume_at_def request_volume_def request_key_def filter_map comp_def)
  then show ?thesis
    using accumulate_get0[of "[]" "map (\<lambda>p. ((src p, dst p), volume p)) ps" k]
    by (simp add: reqs_accumulate get0_def)
qed

lemma edge_events_keys:
  "map fst (edge_events ps) = concat (map (\<lambda>p. edges_of (path_nodes p)) ps)"
  by (simp add: edge_events_def map_concat comp_def)

lemma edge_event_member:
  assumes "p \<in> set ps" and "k \<in> set (edges_of (path_nodes p))"
  shows "(k, (src p, dst p), volume p) \<in> set (edge_events ps)"
  using assms by (auto simp: edge_events_def)

lemma Solution_init_metrics:
  assumes "Solution_init ps vcap m od = Inr s"
  shows "total_vehicles s = sum_list (map (\<lambda>(k, l). vehicles l) (transport_legs s))"
    and "vehicle_utilization s =
           min (if of_int (total_vehicles s) * vcap > 0
                then total_volume s / (of_int (total_vehicles s) * vcap) * 100 else 0) 100"
    and "avg_delivery_time_per_req s =
           (if sol_reqs s \<noteq> [] then total_time s / of_nat (length (sol_reqs s)) else 0)"
    and "cost_per_cubic_meter s =
           (if total_volume s > 0 then Finite (total_cost s / total_volume s) else PosInf)"
    and "total_cost s = transport_cost s + transfer_cost s"
    and "transfer_violations s = snd (calculate_transfer_costs od ps)"
  using assms
  by (auto simp: Solution_init_unfold Let_def split: sum.splits prod.splits)

lemma reqs_keys:
  "distinct (map fst (reconstruct_reqs_from_paths ps))"
  "fst ` set (reconstruct_reqs_from_paths ps) = request_key ` set ps"
  using accumulate_props[of "[]" "map (\<lambda>p. ((src p, dst p), volume p)) ps"]
  by (auto simp: reqs_accumulate request_key_def image_image)

lemma length_reqs: "length (reconstruct_reqs_from_paths ps) = card (request_key ` set ps)"
proof -
  have "card (request_key ` set ps) = card (set (map fst (reconstruct_reqs_from_paths ps)))"
    by (simp add: reqs_keys(2))
  also have "\<dots> = length (map fst (reconstruct_reqs_from_paths ps))"
    by (rule distinct_card[OF reqs_keys(1)])
  finally show ?thesis by simp
qed

lemma reqs_empty: "reconstruct_reqs_from_paths ps = [] \<longleftrightarrow> ps = []"
proof -
  have "reconstruct_reqs_from_paths ps = [] \<longleftrightarrow> fst ` set (reconstruct_reqs_from_paths ps) = {}"
    by simp
  then show ?thesis unfolding reqs_keys(2) by simp
qed

lemma edge_event_volume:
  assumes "ev \<in> set (edge_events ps)"
  shows "\<exists>p \<in> set ps. snd (snd ev) = volume p"
  using assms by (auto simp: edge_events_def)

lemma expected_leg_nonneg:
  assumes "\<forall>p \<in> set ps. 0 \<le> volume p"
  shows "0 \<le> sum_volume (expected_leg e k (edge_events ps))"
proof -
  have "0 \<le> sum_list (map (\<lambda>ev. snd (snd ev)) (filter (\<lambda>ev. fst ev = k) (edge_events ps)))"
  proof (rule sum_list_nonneg)
    fix x assume "x \<in> set (map (\<lambda>ev. snd (snd ev)) (filter (\<lambda>ev. fst ev = k) (edge_events ps)))"
    then obtain ev where "ev \<in> set (edge_events ps)" and "x = snd (snd ev)" by auto
    with edge_event_volume[of ev ps] assms show "0 \<le> x" by auto
  qed
  then show ?thesis by (simp add: expected_leg_def)
qed

lemma leg_vehicles_sign:
  assumes "\<forall>p \<in> set ps. 0 \<le> volume p"
    and "Solution_init ps vcap m od = Inr s" and "(k, l) \<in> set (transport_legs s)"
  shows "(0 < vcap \<longrightarrow> 0 \<le> vehicles l) \<and> (vcap < 0 \<longrightarrow> vehicles l \<le> 0)"
proof -
  from transport_leg_member[OF assms(2,3)] obtain e where
    l: "l = set_vehicles_and_cost vcap (expected_leg e k (edge_events ps))" by auto
  let ?x = "sum_volume (expected_leg e k (edge_events ps))"
  have x: "0 \<le> ?x" by (rule expected_leg_nonneg[OF assms(1)])
  have v: "vehicles l = \<lceil>?x / vcap\<rceil>"
    unfolding l by (simp add: set_vehicles_and_cost_def Let_def)
  have "0 < vcap \<longrightarrow> 0 \<le> \<lceil>?x / vcap\<rceil>"
  proof
    assume "0 < vcap"
    then have "0 \<le> ?x / vcap" using x by simp
    then show "0 \<le> \<lceil>?x / vcap\<rceil>" by (simp add: zero_le_ceiling)
  qed
  moreover have "vcap < 0 \<longrightarrow> \<lceil>?x / vcap\<rceil> \<le> 0"
  proof
    assume "vcap < 0"
    then have "?x / vcap \<le> 0" using x by (simp add: divide_nonneg_neg)
    then show "\<lceil>?x / vcap\<rceil> \<le> 0" by (simp add: ceiling_le_zero)
  qed
  ultimately show ?thesis unfolding v by blast
qed

lemma total_vehicles_sign:
  assumes "\<forall>p \<in> set ps. 0 \<le> volume p" and "Solution_init ps vcap m od = Inr s"
  shows "(0 < vcap \<longrightarrow> 0 \<le> total_vehicles s) \<and> (vcap < 0 \<longrightarrow> total_vehicles s \<le> 0) \<and>
         (vcap = 0 \<longrightarrow> total_vehicles s = 0)"
proof (intro conjI impI)
  assume "0 < vcap"
  then have "\<And>x. x \<in> set (map (\<lambda>(k, l). vehicles l) (transport_legs s)) \<Longrightarrow> 0 \<le> x"
    using leg_vehicles_sign[OF assms] by auto
  then show "0 \<le> total_vehicles s"
    unfolding Solution_init_metrics(1)[OF assms(2)] by (rule sum_list_nonneg)
next
  assume "vcap < 0"
  then have "\<And>x. x \<in> set (map (\<lambda>(k, l). vehicles l) (transport_legs s)) \<Longrightarrow> x \<le> 0"
    using leg_vehicles_sign[OF assms] by auto
  then show "total_vehicles s \<le> 0"
    unfolding Solution_init_metrics(1)[OF assms(2)] by (rule sum_list_nonpos)
next
  assume "vcap = 0"
  then have "fst (raw_legs_from_paths m ps) = []"
    using Solution_init_legs(3)[OF assms(2)] by blast
  then show "total_vehicles s = 0"
    by (simp add: Solution_init_metrics(1)[OF assms(2)] Solution_init_legs(1)[OF assms(2)])
qed

lemma total_volume_nonneg:
  assumes "\<forall>p \<in> set ps. 0 \<le> volume p" and "Solution_init ps vcap m od = Inr s"
  shows "0 \<le> total_volume s"
  unfolding Solution_init_Inr(4)[OF assms(2)]
  using assms(1) by (intro sum_list_nonneg) auto

lemma concat_map_if: "concat (map (\<lambda>x. if P x then [f x] else []) xs) = map f (filter P xs)"
  by (induction xs) simp_all

lemma validate_coverage_eq:
  "validate_coverage s df_tare =
     map (coverage_finding (paths s)) (filter (exceeds_tolerance (paths s)) df_tare)"
proof -
  have a: "get0 (fold (\<lambda>p. add_to (src p, dst p) (volume p)) (paths s) []) k = request_volume k (paths s)" for k
    using get0_reqs[of "paths s" k] by (simp add: reconstruct_reqs_from_paths_def)
  have "validate_coverage s df_tare =
      concat (map (\<lambda>x. if exceeds_tolerance (paths s) x then [coverage_finding (paths s) x] else []) df_tare)"
    unfolding validate_coverage_def Let_def a
    by (rule arg_cong[where f = concat], rule map_cong)
       (auto simp: exceeds_tolerance_def coverage_finding_def)
  then show ?thesis by (simp add: concat_map_if)
qed

lemma transit_flows_events:
  "transit_flows od ps = fold (transit_event_step od) (transit_events ps) (0, [], [])"
proof -
  have h: "(\<lambda>p. fold (transit_step od (volume p)) (transit_nodes (path_nodes p))) =
        (\<lambda>p. fold (transit_event_step od) (map (\<lambda>n. (n, volume p)) (transit_nodes (path_nodes p))))"
    by (intro ext) (simp add: fold_map comp_def transit_event_step_def)
  show ?thesis
    by (simp only: transit_flows_def transit_events_def fold_concat_map h)
qed

lemma fold_transit_dicts:
  "snd (fold (transit_event_step od) evs st) =
     (accumulate evs (fst (snd st)), accumulate evs (snd (snd st)))"
proof (induction evs arbitrary: st)
  case Nil
  show ?case by (simp add: accumulate_def)
next
  case (Cons ev evs)
  obtain tc nin nout where st: "st = (tc, nin, nout)" by (cases st)
  obtain tc' where step: "transit_event_step od ev (tc, nin, nout) =
      (tc', add_to (fst ev) (snd ev) nin, add_to (fst ev) (snd ev) nout)"
    by (simp add: transit_event_step_def)
  have "snd (fold (transit_event_step od) (ev # evs) st) =
        snd (fold (transit_event_step od) evs (tc', add_to (fst ev) (snd ev) nin, add_to (fst ev) (snd ev) nout))"
    by (simp add: st step)
  also have "\<dots> = (accumulate evs (add_to (fst ev) (snd ev) nin), accumulate evs (add_to (fst ev) (snd ev) nout))"
    by (simp add: Cons.IH)
  finally show ?case by (simp add: st accumulate_def)
qed

lemma transit_flows_dicts:
  "snd (transit_flows od ps) = (accumulate (transit_events ps) [], accumulate (transit_events ps) [])"
  by (simp add: transit_flows_events fold_transit_dicts)

lemma accumulate_keys:
  "distinct (map fst d) \<Longrightarrow> fst ` set (accumulate evs d) = fst ` set d \<union> fst ` set evs"
  using accumulate_props[of d evs] by blast

lemma volume_at_absent: "k \<notin> fst ` set evs \<Longrightarrow> volume_at k evs = 0"
proof -
  assume "k \<notin> fst ` set evs"
  then have "filter (\<lambda>kv. fst kv = k) evs = []" by (auto simp: filter_empty_conv)
  then show ?thesis by (simp add: volume_at_def)
qed

lemma transit_nodes_interior: "transit_nodes ns = interior_nodes ns"
proof (cases "2 < length ns")
  case True
  have "butlast (tl ns) = map (\<lambda>i. ns ! i) [1 ..< length ns - 1]"
  proof (rule nth_equalityI)
    show "length (butlast (tl ns)) = length (map (\<lambda>i. ns ! i) [1 ..< length ns - 1])"
      by simp
  next
    fix i assume i: "i < length (butlast (tl ns))"
    then have i2: "i < length ns - 2" by simp
    have "butlast (tl ns) ! i = tl ns ! i" using i by (rule nth_butlast)
    also have "\<dots> = ns ! Suc i" using i2 by (intro nth_tl) simp
    finally show "butlast (tl ns) ! i = map (\<lambda>i. ns ! i) [1 ..< length ns - 1] ! i"
      using i2 by simp
  qed
  with True show ?thesis by (simp add: transit_nodes_def interior_nodes_def)
next
  case False
  then have "[1 ..< length ns - 1] = []" by simp
  with False show ?thesis by (simp add: transit_nodes_def interior_nodes_def)
qed

lemma volume_at_map_const:
  "volume_at n (map (\<lambda>x. (x, v)) xs) = v * of_nat (count_list xs n)"
  by (induction xs) (simp_all add: volume_at_def algebra_simps)

lemma volume_at_append: "volume_at n (xs @ ys) = volume_at n xs + volume_at n ys"
  by (simp add: volume_at_def)

lemma volume_at_transit_events:
  "volume_at n (transit_events ps) =
     sum_list (map (\<lambda>p. volume p * of_nat (count_list (interior_nodes (path_nodes p)) n)) ps)"
proof (induction ps)
  case Nil
  show ?case by (simp add: transit_events_def volume_at_def)
next
  case (Cons p ps)
  have "transit_events (p # ps) =
        map (\<lambda>x. (x, volume p)) (interior_nodes (path_nodes p)) @ transit_events ps"
    by (simp add: transit_events_def transit_nodes_interior)
  then show ?case
    by (simp add: volume_at_append volume_at_map_const Cons.IH)
qed

lemma transit_events_keys: "n \<in> fst ` set (transit_events ps) \<longleftrightarrow> is_transit_node n ps"
  by (force simp: transit_events_def is_transit_node_def transit_nodes_interior)

lemma node_violations_exact:
  "node_violations (accumulate (transit_events ps) []) (accumulate (transit_events ps) []) (n, r) =
     (if is_transit_node n ps \<and> inbound_volume n ps > transfer_max r
      then [TransferViolation n Inbound (inbound_volume n ps) (transfer_max r)] else []) @
     (if is_transit_node n ps \<and> outbound_volume n ps > transfer_max r
      then [TransferViolation n Outbound (outbound_volume n ps) (transfer_max r)] else [])"
proof -
  let ?d = "accumulate (transit_events ps) []"
  have g: "get0 ?d n = inbound_volume n ps"
    using accumulate_get0[of "[]" "transit_events ps" n]
    by (simp add: get0_def volume_at_transit_events inbound_volume_def)
  have k: "map_of ?d n \<noteq> None \<longleftrightarrow> is_transit_node n ps"
    using accumulate_keys[of "[]" "transit_events ps"]
    by (simp add: map_of_eq_None_iff transit_events_keys)
  have o: "outbound_volume n ps = inbound_volume n ps"
    by (simp add: outbound_volume_def inbound_volume_def)
  show ?thesis
    unfolding node_violations_def by (simp only: prod.case g k o)
qed

lemma not_transit_volume:
  assumes "\<not> is_transit_node n ps"
  shows "inbound_volume n ps = 0" and "outbound_volume n ps = 0"
proof -
  have "n \<notin> fst ` set (transit_events ps)" using assms by (simp add: transit_events_keys)
  then have "volume_at n (transit_events ps) = 0" by (rule volume_at_absent)
  then show "inbound_volume n ps = 0" and "outbound_volume n ps = 0"
    by (simp_all add: volume_at_transit_events inbound_volume_def outbound_volume_def)
qed

lemma node_violations_eq:
  assumes "0 \<le> transfer_max r"
  shows "node_violations (accumulate (transit_events ps) []) (accumulate (transit_events ps) []) (n, r) =
     (if inbound_volume n ps > transfer_max r
      then [TransferViolation n Inbound (inbound_volume n ps) (transfer_max r)] else []) @
     (if outbound_volume n ps > transfer_max r
      then [TransferViolation n Outbound (outbound_volume n ps) (transfer_max r)] else [])"
proof (cases "is_transit_node n ps")
  case True
  then show ?thesis by (simp add: node_violations_exact)
next
  case False
  then show ?thesis using assms not_transit_volume[OF False]
    by (simp add: node_violations_exact)
qed

lemma violations_unfold:
  "snd (calculate_transfer_costs (Some offs) ps) =
     concat (map (node_violations (accumulate (transit_events ps) []) (accumulate (transit_events ps) [])) offs)"
proof -
  obtain tc where tf: "transit_flows (Some offs) ps =
      (tc, accumulate (transit_events ps) [], accumulate (transit_events ps) [])"
    using transit_flows_dicts[of "Some offs" ps] by (cases "transit_flows (Some offs) ps") auto
  show ?thesis
    by (simp only: calculate_transfer_costs_def tf prod.case snd_conv option.case)
qed

lemma flow_to_path_eq:
  assumes "legs f \<noteq> []"
  shows "flow_to_path f = (if endpoints_match f then Inr (path_of_flow f) else Inl ValueError)"
proof -
  obtain l0 ls where l: "legs f = l0 # ls" using assms by (cases "legs f") auto
  show ?thesis
    by (simp add: flow_to_path_def l endpoints_match_def reconstructed_path_def path_of_flow_def
        Let_def)
qed

lemma flows_to_paths_eq:
  assumes "\<forall>f \<in> set fl. legs f \<noteq> []"
  shows "flows_to_paths fl =
     (if \<forall>f \<in> set fl. endpoints_match f then Inr (map path_of_flow fl) else Inl ValueError)"
  using assms
proof (induction fl)
  case Nil
  show ?case by simp
next
  case (Cons f fl)
  then have "legs f \<noteq> []" and "\<forall>f \<in> set fl. legs f \<noteq> []" by auto
  then show ?case using Cons.IH by (simp add: flow_to_path_eq)
qed

lemma Solution_init_error:
  assumes "Solution_init ps vcap m od = Inl e"
  shows "e = ZeroDivisionError"
  using assms
  by (auto simp: Solution_init_unfold reconstruct_transport_legs_from_paths_def finish_legs_eq Let_def
      split: sum.splits prod.splits if_splits)

lemma raw_legs_nonempty:
  "fst (raw_legs_from_paths m ps) \<noteq> [] \<longleftrightarrow> has_resolvable_edge m ps"
proof
  assume "fst (raw_legs_from_paths m ps) \<noteq> []"
  then obtain k l where "(k, l) \<in> set (fst (raw_legs_from_paths m ps))"
    by (cases "fst (raw_legs_from_paths m ps)") auto
  from raw_leg_member[OF this] obtain e where e: "map_of m k = Some e"
    and k: "k \<in> fst ` set (edge_events ps)" by blast
  from k have "k \<in> set (concat (map (\<lambda>p. edges_of (path_nodes p)) ps))"
    unfolding edge_events_keys[symmetric] by simp
  with e show "has_resolvable_edge m ps"
    by (auto simp: has_resolvable_edge_def)
next
  assume "has_resolvable_edge m ps"
  then obtain p k e where p: "p \<in> set ps" and k: "k \<in> set (edges_of (path_nodes p))"
    and e: "map_of m k = Some e"
    by (auto simp: has_resolvable_edge_def)
  have "k \<in> fst ` set (edge_events ps)"
    using edge_event_member[OF p k] by force
  then have "map_of (fst (raw_legs_from_paths m ps)) k \<noteq> None"
    by (simp add: raw_leg_lookup e)
  then show "fst (raw_legs_from_paths m ps) \<noteq> []" by auto
qed

lemma Solution_init_fails_iff:
  "Solution_init ps vcap m od = Inl ZeroDivisionError \<longleftrightarrow> vcap = 0 \<and> has_resolvable_edge m ps"
  unfolding raw_legs_nonempty[symmetric]
  by (auto simp: Solution_init_unfold reconstruct_transport_legs_from_paths_def finish_legs_eq Let_def
      split: sum.splits prod.splits if_splits)

lemma Solution_init_succeeds:
  assumes "\<not> (vcap = 0 \<and> has_resolvable_edge m ps)"
  shows "\<exists>s. Solution_init ps vcap m od = Inr s"
proof (cases "Solution_init ps vcap m od")
  case (Inl e)
  then have "e = ZeroDivisionError" by (rule Solution_init_error)
  with Inl assms show ?thesis by (simp add: Solution_init_fails_iff)
next
  case (Inr s)
  then show ?thesis by blast
qed

text \<open>The text of a list of office ids evaluates back to the list.\<close>

lemma digit_of_props:
  assumes "k < 10"
  shows "is_digit (digit_of k)" and "digit_val (digit_of k) = k"
    and "digit_of k \<noteq> CHR '',''" and "digit_of k \<noteq> CHR ''-''"
    and "k \<noteq> 0 \<Longrightarrow> digit_of k \<noteq> CHR ''0''"
proof -
  have o: "(of_char (digit_of k) :: nat) = 48 + k"
    using assms by (simp add: digit_of_def)
  show "is_digit (digit_of k)" using assms by (simp add: is_digit_def o)
  show "digit_val (digit_of k) = k" by (simp add: digit_val_def o)
  show "digit_of k \<noteq> CHR '',''"
  proof
    assume "digit_of k = CHR '',''"
    then have "(of_char (digit_of k) :: nat) = of_char CHR '',''" by simp
    then show False unfolding o by simp
  qed
  show "digit_of k \<noteq> CHR ''-''"
  proof
    assume "digit_of k = CHR ''-''"
    then have "(of_char (digit_of k) :: nat) = of_char CHR ''-''" by simp
    then show False unfolding o by simp
  qed
  show "digit_of k \<noteq> CHR ''0''" if "k \<noteq> 0"
  proof
    assume "digit_of k = CHR ''0''"
    then have "(of_char (digit_of k) :: nat) = of_char CHR ''0''" by simp
    then show False unfolding o using that by simp
  qed
qed

lemma str_nat_props:
  "str_nat n \<noteq> [] \<and> list_all is_digit (str_nat n) \<and>
   foldl (\<lambda>a c. 10 * a + digit_val c) 0 (str_nat n) = n \<and>
   (n \<noteq> 0 \<longrightarrow> hd (str_nat n) \<noteq> CHR ''0'') \<and>
   CHR '','' \<notin> set (str_nat n) \<and> hd (str_nat n) \<noteq> CHR ''-''"
proof (induction n rule: str_nat.induct)
  case (1 n)
  show ?case
  proof (cases "n < 10")
    case True
    then have s: "str_nat n = [digit_of n]" by (subst str_nat.simps) simp
    show ?thesis unfolding s using digit_of_props[OF True] by simp
  next
    case False
    then have s: "str_nat n = str_nat (n div 10) @ [digit_of (n mod 10)]"
      by (subst str_nat.simps) simp
    have m: "n mod 10 < 10" by simp
    have d: "n div 10 \<noteq> 0" using False by simp
    from "1.IH"[OF False] d have ih: "str_nat (n div 10) \<noteq> []"
      "list_all is_digit (str_nat (n div 10))"
      "foldl (\<lambda>a c. 10 * a + digit_val c) 0 (str_nat (n div 10)) = n div 10"
      "hd (str_nat (n div 10)) \<noteq> CHR ''0''"
      "CHR '','' \<notin> set (str_nat (n div 10))" "hd (str_nat (n div 10)) \<noteq> CHR ''-''"
      by simp_all
    show ?thesis
      unfolding s using ih digit_of_props[OF m] by simp
  qed
qed

lemma nat_literal_str_nat: "nat_literal (str_nat n) = Some n"
proof -
  have "length (str_nat n) = 1 \<or> hd (str_nat n) \<noteq> CHR ''0''"
  proof (cases "n = 0")
    case True
    then show ?thesis by (subst str_nat.simps) simp
  next
    case False
    then show ?thesis using str_nat_props[of n] by simp
  qed
  then show ?thesis using str_nat_props[of n] by (simp add: nat_literal_def)
qed

lemma int_literal_py_str_int: "int_literal (py_str_int i) = Some i"
proof (cases "i < 0")
  case True
  then show ?thesis by (simp add: py_str_int_def int_literal_def nat_literal_str_nat)
next
  case False
  then show ?thesis using str_nat_props[of "nat i"]
    by (simp add: py_str_int_def int_literal_def nat_literal_str_nat)
qed

lemma py_str_int_props: "py_str_int i \<noteq> []" "CHR '','' \<notin> set (py_str_int i)"
  using str_nat_props[of "nat i"] str_nat_props[of "nat (- i)"]
  by (auto simp: py_str_int_def)

lemma split_comma_nonempty: "split_comma s \<noteq> []"
  by (induction s rule: split_comma.induct) (auto split: list.splits)

lemma split_comma_prefix:
  assumes "CHR '','' \<notin> set w"
  shows "split_comma (w @ s) = (w @ hd (split_comma s)) # tl (split_comma s)"
  using assms
proof (induction w)
  case Nil
  show ?case using split_comma_nonempty[of s] by simp
next
  case (Cons c w)
  then have ih: "split_comma (w @ s) = (w @ hd (split_comma s)) # tl (split_comma s)" by simp
  from Cons.prems have "c \<noteq> CHR '',''" by auto
  then show ?case by (simp add: ih)
qed

lemma split_comma_sep: "split_comma ('', '' @ s) = [] # split_comma s"
  by simp

lemma split_join:
  assumes "ws \<noteq> []" and "\<forall>w \<in> set ws. CHR '','' \<notin> set w"
  shows "split_comma (join_comma ws) = ws"
  using assms
proof (induction ws rule: join_comma.induct)
  case 1
  then show ?case by simp
next
  case (2 w)
  then have "CHR '','' \<notin> set w" by simp
  from split_comma_prefix[OF this, of "[]"] show ?case by simp
next
  case (3 w v ws)
  then have w: "CHR '','' \<notin> set w" and ih: "split_comma (join_comma (v # ws)) = v # ws" by auto
  have "split_comma (join_comma (w # v # ws)) = split_comma (w @ ('', '' @ join_comma (v # ws)))"
    by simp
  also have "\<dots> = (w @ hd (split_comma ('', '' @ join_comma (v # ws)))) #
                   tl (split_comma ('', '' @ join_comma (v # ws)))"
    by (rule split_comma_prefix[OF w])
  also have "\<dots> = w # v # ws"
    unfolding split_comma_sep ih by simp
  finally show ?case .
qed

lemma join_comma_nonempty: "ws \<noteq> [] \<Longrightarrow> hd ws \<noteq> [] \<Longrightarrow> join_comma ws \<noteq> []"
  by (cases ws rule: join_comma.cases) auto

lemma those_literals:
  "those (map (\<lambda>w. map_option Office (int_literal w)) (map py_str_int xs)) = Some (map Office xs)"
  by (induction xs) (simp_all add: int_literal_py_str_int)

lemma eval_str_offices: "py_eval_node_list (py_str_list (map Office xs)) = Some (map Office xs)"
proof (cases "xs = []")
  case True
  then show ?thesis by (simp add: py_eval_node_list_def py_str_list_def)
next
  case False
  let ?ws = "map py_str_int xs"
  have ws: "map py_repr (map Office xs) = ?ws" by simp
  have ne: "?ws \<noteq> []" using False by simp
  have nc: "\<forall>w \<in> set ?ws. CHR '','' \<notin> set w" using py_str_int_props(2) by auto
  have "hd ?ws \<noteq> []" using False py_str_int_props(1) by (cases xs) auto
  then have body: "join_comma ?ws \<noteq> []" by (rule join_comma_nonempty[OF ne])
  have s: "py_str_list (map Office xs) = CHR ''['' # (join_comma ?ws @ '']'')"
    unfolding py_str_list_def ws by simp
  have "py_eval_node_list (CHR ''['' # (join_comma ?ws @ '']'')) =
        those (map (\<lambda>w. map_option Office (int_literal w)) (split_comma (join_comma ?ws)))"
    using body by (simp add: py_eval_node_list_def)
  also have "\<dots> = Some (map Office xs)"
    unfolding split_join[OF ne nc] by (rule those_literals)
  finally show ?thesis unfolding s .
qed

text \<open>Unfolding the model on a concrete input.\<close>

lemmas eval_defs =
  Solution_init_unfold reconstruct_transport_legs_from_paths_def raw_legs_from_paths_def
  path_step_def edges_of_def upt_rec add_contribution_def new_leg_def finish_leg_def
  set_vehicles_and_cost_def reconstruct_reqs_from_paths_def add_to_def get0_def
  calculate_transfer_costs_def transit_flows_def transit_nodes_def node_violations_def
  count_underloaded_legs_def Let_def

text \<open>From a written flow table back to the flows.\<close>

lemma nodes_rebuild:
  assumes "2 \<le> length ns"
  shows "ns ! 0 # map (\<lambda>i. ns ! (i + 1)) [0 ..< length ns - 1] = ns"
proof -
  obtain x xs where ns: "ns = x # xs" using assms by (cases ns) auto
  have "map (\<lambda>i. ns ! (i + 1)) [0 ..< length ns - 1] = map ((!) xs) [0 ..< length xs]"
    by (simp add: ns)
  also have "\<dots> = xs" by (rule map_nth)
  finally show ?thesis by (simp add: ns)
qed

lemma reconstructed_flow_of_path:
  assumes "2 \<le> length (path_nodes p)"
  shows "legs (flow_of_path p) \<noteq> []" and "reconstructed_path (flow_of_path p) = path_nodes p"
proof -
  let ?ns = "path_nodes p"
  have n: "0 < length ?ns - 1" using assms by simp
  then show "legs (flow_of_path p) \<noteq> []" by (simp add: flow_of_path_def)
  have u: "[0 ..< length ?ns - 1] \<noteq> []" using n by simp
  have c: "[0 ..< length ?ns - 1] = 0 # [1 ..< length ?ns - 1]"
    using n by (simp add: upt_conv_Cons)
  have h: "from_office_id (hd (legs (flow_of_path p))) = ?ns ! 0"
    unfolding flow_of_path_def by (simp only: ext_flow.select_convs c) simp
  have t: "map to_office_id (legs (flow_of_path p)) = map (\<lambda>i. ?ns ! (i + 1)) [0 ..< length ?ns - 1]"
    by (simp add: flow_of_path_def comp_def)
  show "reconstructed_path (flow_of_path p) = path_nodes p"
    unfolding reconstructed_path_def h t by (rule nodes_rebuild[OF assms])
qed

lemma flow_of_path_sel:
  "src_office_id (flow_of_path p) = src p" "dst_office_id (flow_of_path p) = dst p"
  "avg_day_polybox_qty (flow_of_path p) = volume p"
  by (simp_all add: flow_of_path_def)

lemma path_of_flow_of_path:
  assumes "well_formed_flow p"
  shows "endpoints_match (flow_of_path p)" and "path_of_flow (flow_of_path p) = p"
proof -
  have l: "2 \<le> length (path_nodes p)" using assms by (simp add: well_formed_flow_def)
  have r: "reconstructed_path (flow_of_path p) = path_nodes p"
    by (rule reconstructed_flow_of_path(2)[OF l])
  show "endpoints_match (flow_of_path p)"
    using assms by (simp add: endpoints_match_def r well_formed_flow_def flow_of_path_sel)
  show "path_of_flow (flow_of_path p) = p"
    by (simp add: path_of_flow_def r flow_of_path_sel)
qed

lemma flows_of_paths_load:
  assumes "\<forall>p \<in> set ps. well_formed_flow p"
  shows "flows_to_paths (map flow_of_path ps) = Inr ps"
proof -
  have ne: "\<forall>f \<in> set (map flow_of_path ps). legs f \<noteq> []"
    using assms reconstructed_flow_of_path(1) by (auto simp: well_formed_flow_def)
  have em: "\<forall>f \<in> set (map flow_of_path ps). endpoints_match f"
    using assms path_of_flow_of_path(1) by auto
  have "map path_of_flow (map flow_of_path ps) = map (\<lambda>p. p) ps"
    unfolding map_map using assms by (intro map_cong) (auto simp: path_of_flow_of_path(2))
  then show ?thesis
    using flows_to_paths_eq[OF ne] em by simp
qed


lemma offices_map: "list_all is_office ns \<Longrightarrow> \<exists>xs. ns = map Office xs"
proof (induction ns)
  case Nil
  show ?case by simp
next
  case (Cons n ns)
  then obtain xs where "ns = map Office xs" by auto
  moreover from Cons.prems obtain i where "n = Office i" by (cases n) auto
  ultimately have "n # ns = map Office (i # xs)" by simp
  then show ?case by (rule exI[of _ "i # xs"])
qed

lemma eval_str_path:
  assumes "list_all is_office ns"
  shows "py_eval_node_list (py_str_list ns) = Some ns"
  using offices_map[OF assms] eval_str_offices by auto

lemma rows_to_flows:
  assumes "\<forall>p \<in> set ps. list_all is_office (path_nodes p)"
  shows "concat (map row_to_flow (map row_of_path ps)) = map flow_of_path ps"
  using assms
proof (induction ps)
  case Nil
  show ?case by simp
next
  case (Cons p ps)
  have "py_eval_node_list (py_str_list (path_nodes p)) = Some (path_nodes p)"
    using Cons.prems by (simp add: eval_str_path)
  then have "row_to_flow (row_of_path p) = [flow_of_path p]"
    by (simp add: row_to_flow_def row_of_path_def flow_of_path_def)
  moreover have "concat (map row_to_flow (map row_of_path ps)) = map flow_of_path ps"
    using Cons by simp
  ultimately show ?case by simp
qed

lemma empty_analyzer:
  "\<exists>s. Solution_init [] vcap m od = Inr s \<and> paths s = [] \<and> transport_legs s = [] \<and>
       total_volume s = 0 \<and> total_vehicles s = 0"
  by (simp add: eval_defs)

subsection \<open>Request aggregation preserves volume\<close>

text \<open>
  Claim C10. For every flow set, the values of the request aggregate \<open>self.reqs\<close> sum
  to \<open>total_volume\<close>, the sum of all flow volumes. Hence
  \<open>avg_delivery_time_per_volume\<close>, which the code computes from the sum of the
  aggregate, is \<open>total_time / total_volume\<close> when the total volume is positive, and
  0 otherwise.
\<close>

theorem request_aggregate_preserves_volume:
  assumes "Solution_init ps vcap m od = Inr s"
  shows "sum_list (map snd (sol_reqs s)) = total_volume s \<and>
         avg_delivery_time_per_volume s =
           (if total_volume s > 0 then total_time s / total_volume s else 0)"
  using Solution_init_Inr[OF assms] sum_reqs[of ps] by simp

theorem request_aggregate_preserves_volume_witness:
  "\<exists>s. Solution_init [\<lparr>src = 1::int, dst = 3, volume = 91, path_nodes = [1, 2, 3]\<rparr>,
                        \<lparr>src = 1, dst = 3, volume = 9, path_nodes = [1, 3]\<rparr>,
                        \<lparr>src = 2, dst = 3, volume = 5, path_nodes = [2, 3]\<rparr>] 90
          [((1, 2), \<lparr>row_distance = 1000, row_time = 60, price_per_km = 2\<rparr>)] None = Inr s \<and>
       sol_reqs s = [((1, 3), 100), ((2, 3), 5)] \<and>
       sum_list (map snd (sol_reqs s)) = 105 \<and> total_volume s = 105 \<and>
       total_time s = 120 \<and> avg_delivery_time_per_volume s = 120 / 105"
proof -
  let ?ps = "[\<lparr>src = 1::int, dst = 3, volume = 91, path_nodes = [1, 2, 3]\<rparr>,
                        \<lparr>src = 1, dst = 3, volume = 9, path_nodes = [1, 3]\<rparr>,
                        \<lparr>src = 2, dst = 3, volume = 5, path_nodes = [2, 3]\<rparr>]"
  let ?m = "[((1::int, 2::int), \<lparr>row_distance = 1000, row_time = 60, price_per_km = 2\<rparr>)]"
  obtain s where s: "Solution_init ?ps 90 ?m None = Inr s"
    using Solution_init_total[of 90 ?ps ?m None] by auto
  have r: "sol_reqs s = [((1, 3), 100), ((2, 3), 5)]"
    using Solution_init_Inr(3)[OF s] by (simp add: eval_defs)
  have t: "total_time s = 120"
    using s by (auto simp add: eval_defs)
  show ?thesis
    using request_aggregate_preserves_volume[OF s] s r t by (intro exI[of _ s]) simp
qed

subsection \<open>Derived fields of a transport leg\<close>

text \<open>
  Claim C1. For every constructed analyzer and every leg \<open>l\<close> in its leg map:
  \<open>sum_volume\<close> is the sum of the volumes in the contribution list \<open>reqs\<close>,
  \<open>vehicles\<close> is the ceiling of \<open>sum_volume / vehicle_capacity\<close> (the capacity is
  not zero when a leg exists), and \<open>sum_cost\<close> is
  \<open>vehicles * cost_per_km * distance / 1000\<close>. With capacity 90 a volume of 91 gives
  2 vehicles, 90 gives 1 and 0 gives 0.
\<close>

theorem leg_derived_fields:
  assumes "Solution_init ps vcap m od = Inr s" and "(k, l) \<in> set (transport_legs s)"
  shows "vehicle_capacity s \<noteq> 0 \<and>
         sum_volume l = sum_list (map snd (reqs l)) \<and>
         vehicles l = \<lceil>sum_volume l / vehicle_capacity s\<rceil> \<and>
         sum_cost l = of_int (vehicles l) * cost_per_km l * distance l / 1000 \<and>
         (vehicle_capacity s = 90 \<longrightarrow>
            (sum_volume l = 91 \<longrightarrow> vehicles l = 2) \<and>
            (sum_volume l = 90 \<longrightarrow> vehicles l = 1) \<and>
            (sum_volume l = 0 \<longrightarrow> vehicles l = 0))"
proof -
  from transport_leg_member[OF assms] obtain e where
    nz: "vcap \<noteq> 0" and l: "l = set_vehicles_and_cost vcap (expected_leg e k (edge_events ps))"
    by auto
  have vc: "vehicle_capacity s = vcap" by (rule Solution_init_Inr(2)[OF assms(1)])
  have sv: "sum_volume l = sum_list (map snd (reqs l))"
    unfolding l by (simp add: set_vehicles_and_cost_def Let_def expected_leg_sum)
  have ve: "vehicles l = \<lceil>sum_volume l / vcap\<rceil>"
    unfolding l by (simp add: set_vehicles_and_cost_def Let_def)
  have sc: "sum_cost l = of_int (vehicles l) * cost_per_km l * distance l / 1000"
    unfolding l by (simp add: set_vehicles_and_cost_def Let_def)
  have ex: "vcap = 90 \<longrightarrow>
            (sum_volume l = 91 \<longrightarrow> vehicles l = 2) \<and>
            (sum_volume l = 90 \<longrightarrow> vehicles l = 1) \<and>
            (sum_volume l = 0 \<longrightarrow> vehicles l = 0)"
    unfolding ve by simp
  show ?thesis using nz sv ve sc ex unfolding vc by blast
qed

theorem leg_derived_fields_witness:
  "\<exists>s. Solution_init
          [\<lparr>src = 1::int, dst = 2, volume = 91, path_nodes = [1, 2]\<rparr>,
           \<lparr>src = 2, dst = 3, volume = 90, path_nodes = [2, 3]\<rparr>,
           \<lparr>src = 3, dst = 4, volume = 0, path_nodes = [3, 4]\<rparr>] 90
          [((1, 2), \<lparr>row_distance = 5000, row_time = 60, price_per_km = 2\<rparr>),
           ((2, 3), \<lparr>row_distance = 1000, row_time = 60, price_per_km = 3\<rparr>),
           ((3, 4), \<lparr>row_distance = 1000, row_time = 60, price_per_km = 3\<rparr>)] None = Inr s \<and>
       map (\<lambda>(k, l). (k, sum_volume l, reqs l, vehicles l, sum_cost l)) (transport_legs s) =
         [((1, 2), 91, [((1, 2), 91)], 2, 20),
          ((2, 3), 90, [((2, 3), 90)], 1, 3),
          ((3, 4), 0, [((3, 4), 0)], 0, 0)] \<and>
       (\<forall>(k, l) \<in> set (transport_legs s).
          sum_volume l = sum_list (map snd (reqs l)) \<and> vehicles l = \<lceil>sum_volume l / 90\<rceil>)"
proof -
  let ?ps = "[\<lparr>src = 1::int, dst = 2, volume = 91, path_nodes = [1, 2]\<rparr>,
           \<lparr>src = 2, dst = 3, volume = 90, path_nodes = [2, 3]\<rparr>,
           \<lparr>src = 3, dst = 4, volume = 0, path_nodes = [3, 4]\<rparr>]"
  let ?m = "[((1::int, 2::int), \<lparr>row_distance = 5000, row_time = 60, price_per_km = 2\<rparr>),
           ((2, 3), \<lparr>row_distance = 1000, row_time = 60, price_per_km = 3\<rparr>),
           ((3, 4), \<lparr>row_distance = 1000, row_time = 60, price_per_km = 3\<rparr>)]"
  obtain s where s: "Solution_init ?ps 90 ?m None = Inr s"
    using Solution_init_total[of 90 ?ps ?m None] by auto
  have tlegs: "map (\<lambda>(k, l). (k, sum_volume l, reqs l, vehicles l, sum_cost l)) (transport_legs s) =
         [((1, 2), 91, [((1, 2), 91)], 2, 20),
          ((2, 3), 90, [((2, 3), 90)], 1, 3),
          ((3, 4), 0, [((3, 4), 0)], 0, 0)]"
    using s by (auto simp: eval_defs)
  have vc: "vehicle_capacity s = 90" by (rule Solution_init_Inr(2)[OF s])
  have all: "\<forall>(k, l) \<in> set (transport_legs s).
          sum_volume l = sum_list (map snd (reqs l)) \<and> vehicles l = \<lceil>sum_volume l / 90\<rceil>"
    using leg_derived_fields[OF s] vc by auto
  show ?thesis
    by (intro exI[of _ s] conjI s tlegs all)
qed

subsection \<open>A single flow over two edges\<close>

text \<open>
  Claim C2. A flow set of one flow with path \<open>[A, B, C]\<close> and volume \<open>v\<close>, both edges
  being in \<open>matrix_df\<close> and being two different edges, and a nonzero vehicle capacity:
  the constructor returns an analyzer whose leg map has exactly the keys \<open>(A, B)\<close> and
  \<open>(B, C)\<close>, each leg with the single contribution \<open>((A, C), v)\<close> and
  \<open>sum_volume = v\<close>, and whose request aggregate is \<open>{(A, C): v}\<close>.
\<close>

theorem single_flow_two_legs:
  assumes "map_of m (A, B) = Some e1" and "map_of m (B, C) = Some e2"
    and "(A, B) \<noteq> (B, C)" and "vcap \<noteq> 0"
  shows "\<exists>s. Solution_init [\<lparr>src = A, dst = C, volume = v, path_nodes = [A, B, C]\<rparr>] vcap m od = Inr s \<and>
     map fst (transport_legs s) = [(A, B), (B, C)] \<and>
     (\<forall>(k, l) \<in> set (transport_legs s). reqs l = [((A, C), v)] \<and> sum_volume l = v) \<and>
     sol_reqs s = [((A, C), v)] \<and> get0 (sol_reqs s) (A, C) = v"
proof -
  let ?ps = "[\<lparr>src = A, dst = C, volume = v, path_nodes = [A, B, C]\<rparr>]"
  obtain s where s: "Solution_init ?ps vcap m od = Inr s"
    using Solution_init_total[OF assms(4)] by blast
  have raw: "fst (raw_legs_from_paths m ?ps) =
      [((A, B), (new_leg e1)\<lparr>reqs := [((A, C), v)], sum_volume := v\<rparr>),
       ((B, C), (new_leg e2)\<lparr>reqs := [((A, C), v)], sum_volume := v\<rparr>)]"
    using assms(1,2,3)
    by (auto simp: raw_legs_from_paths_def path_step_def edges_of_def upt_rec add_contribution_def new_leg_def)
  have keys: "map fst (transport_legs s) = [(A, B), (B, C)]"
    by (simp add: Solution_init_legs(1)[OF s] raw)
  have tlegs: "\<forall>(k, l) \<in> set (transport_legs s). reqs l = [((A, C), v)] \<and> sum_volume l = v"
    by (simp add: Solution_init_legs(1)[OF s] raw set_vehicles_and_cost_def Let_def)
  have r: "sol_reqs s = [((A, C), v)]"
    by (simp add: Solution_init_Inr(3)[OF s] reconstruct_reqs_from_paths_def add_to_def get0_def)
  have g: "get0 (sol_reqs s) (A, C) = v"
    by (simp add: r get0_def)
  show ?thesis by (intro exI[of _ s] conjI s keys tlegs r g)
qed

theorem single_flow_two_legs_witness:
  "\<exists>s. Solution_init [\<lparr>src = 1::int, dst = 3, volume = 40, path_nodes = [1, 2, 3]\<rparr>] 90
          [((1, 2), \<lparr>row_distance = 1000, row_time = 60, price_per_km = 2\<rparr>),
           ((2, 3), \<lparr>row_distance = 3000, row_time = 90, price_per_km = 2\<rparr>)] None = Inr s \<and>
     map fst (transport_legs s) = [(1, 2), (2, 3)] \<and>
     (\<forall>(k, l) \<in> set (transport_legs s). reqs l = [((1, 3), 40)] \<and> sum_volume l = 40) \<and>
     sol_reqs s = [((1, 3), 40)] \<and> get0 (sol_reqs s) (1, 3) = 40"
proof -
  let ?m = "[((1::int, 2::int), \<lparr>row_distance = 1000, row_time = 60, price_per_km = 2\<rparr>),
           ((2, 3), \<lparr>row_distance = 3000, row_time = 90, price_per_km = 2\<rparr>)]"
  have 1: "map_of ?m (1, 2) = Some \<lparr>row_distance = 1000, row_time = 60, price_per_km = 2\<rparr>" by simp
  have 2: "map_of ?m (2, 3) = Some \<lparr>row_distance = 3000, row_time = 90, price_per_km = 2\<rparr>" by simp
  have 3: "((1::int), (2::int)) \<noteq> (2, 3)" by simp
  have 4: "(90::real) \<noteq> 0" by simp
  show ?thesis
    using single_flow_two_legs[OF 1 2 3 4, of 40 None] by simp
qed

subsection \<open>An edge missing from the matrix\<close>

text \<open>
  Claim C3. With a nonzero vehicle capacity the constructor returns an analyzer for
  every flow set, whatever edges \<open>matrix_df\<close> lacks. Every edge of a flow that is not
  in \<open>matrix_df\<close> is absent from the leg map and is logged; every edge of the flow that
  is in \<open>matrix_df\<close> has a leg whose contributions are those of all occurrences of the
  edge in the flow set, the flow's own among them; and the request aggregate of the
  flow's key is the volume of all flows of that request.
\<close>

theorem missing_edge_is_skipped:
  assumes "vcap \<noteq> 0"
  shows "\<exists>s. Solution_init ps vcap m od = Inr s \<and>
     critical_log s =
       filter (\<lambda>k. map_of m k = None) (concat (map (\<lambda>p. edges_of (path_nodes p)) ps)) \<and>
     (\<forall>p \<in> set ps. \<forall>k \<in> set (edges_of (path_nodes p)).
        (map_of m k = None \<longrightarrow>
           map_of (transport_legs s) k = None \<and> k \<in> set (critical_log s)) \<and>
        (map_of m k \<noteq> None \<longrightarrow>
           (\<exists>l. map_of (transport_legs s) k = Some l \<and>
                reqs l = contributions k ps \<and>
                sum_volume l = sum_list (map snd (contributions k ps)) \<and>
                ((src p, dst p), volume p) \<in> set (reqs l)))) \<and>
     (\<forall>p \<in> set ps. get0 (sol_reqs s) (src p, dst p) = request_volume (src p, dst p) ps)"
proof -
  obtain s where s: "Solution_init ps vcap m od = Inr s"
    using Solution_init_total[OF assms] by blast
  have lg: "critical_log s =
       filter (\<lambda>k. map_of m k = None) (concat (map (\<lambda>p. edges_of (path_nodes p)) ps))"
    by (simp add: Solution_init_legs(2)[OF s] raw_leg_log edge_events_keys)
  have rq: "\<forall>p \<in> set ps. get0 (sol_reqs s) (src p, dst p) = request_volume (src p, dst p) ps"
    by (simp add: Solution_init_Inr(3)[OF s] get0_reqs)
  have ed: "\<forall>p \<in> set ps. \<forall>k \<in> set (edges_of (path_nodes p)).
        (map_of m k = None \<longrightarrow>
           map_of (transport_legs s) k = None \<and> k \<in> set (critical_log s)) \<and>
        (map_of m k \<noteq> None \<longrightarrow>
           (\<exists>l. map_of (transport_legs s) k = Some l \<and>
                reqs l = contributions k ps \<and>
                sum_volume l = sum_list (map snd (contributions k ps)) \<and>
                ((src p, dst p), volume p) \<in> set (reqs l)))"
  proof (intro ballI conjI impI)
    fix p k assume p: "p \<in> set ps" and k: "k \<in> set (edges_of (path_nodes p))" and n: "map_of m k = None"
    show "map_of (transport_legs s) k = None"
      by (simp add: map_of_transport_legs[OF s] raw_leg_lookup n)
    show "k \<in> set (critical_log s)"
      unfolding lg using p k n by auto
  next
    fix p k assume p: "p \<in> set ps" and k: "k \<in> set (edges_of (path_nodes p))" and n: "map_of m k \<noteq> None"
    then obtain e where e: "map_of m k = Some e" by auto
    have ev: "(k, (src p, dst p), volume p) \<in> set (edge_events ps)"
      by (rule edge_event_member[OF p k])
    then have mem: "k \<in> fst ` set (edge_events ps)" by force
    let ?l = "set_vehicles_and_cost vcap (expected_leg e k (edge_events ps))"
    have 1: "map_of (transport_legs s) k = Some ?l"
      by (simp add: map_of_transport_legs[OF s] raw_leg_lookup e mem)
    have 2: "reqs ?l = contributions k ps"
      by (simp add: set_vehicles_and_cost_def Let_def expected_leg_def contributions_def)
    have 3: "sum_volume ?l = sum_list (map snd (contributions k ps))"
      by (simp add: set_vehicles_and_cost_def Let_def expected_leg_def contributions_def comp_def)
    have 4: "((src p, dst p), volume p) \<in> set (reqs ?l)"
      unfolding 2 contributions_def using ev by force
    show "\<exists>l. map_of (transport_legs s) k = Some l \<and>
                reqs l = contributions k ps \<and>
                sum_volume l = sum_list (map snd (contributions k ps)) \<and>
                ((src p, dst p), volume p) \<in> set (reqs l)"
      using 1 2 3 4 by blast
  qed
  show ?thesis by (intro exI[of _ s] conjI s lg ed rq)
qed

theorem missing_edge_is_skipped_witness:
  "\<exists>s. Solution_init [\<lparr>src = 1::int, dst = 3, volume = 40, path_nodes = [1, 2, 3]\<rparr>] 90
          [((1, 2), \<lparr>row_distance = 1000, row_time = 60, price_per_km = 2\<rparr>)] None = Inr s \<and>
       critical_log s = [(2, 3)] \<and>
       map (\<lambda>(k, l). (k, sum_volume l, reqs l, vehicles l)) (transport_legs s) =
         [((1, 2), 40, [((1, 3), 40)], 1)] \<and>
       map_of (transport_legs s) (2, 3) = None \<and>
       sol_reqs s = [((1, 3), 40)] \<and>
       get0 (sol_reqs s) (1, 3) = request_volume (1, 3) [\<lparr>src = 1::int, dst = 3, volume = 40, path_nodes = [1, 2, 3]\<rparr>]"
proof -
  let ?ps = "[\<lparr>src = 1::int, dst = 3, volume = 40, path_nodes = [1, 2, 3]\<rparr>]"
  let ?m = "[((1::int, 2::int), \<lparr>row_distance = 1000, row_time = 60, price_per_km = 2\<rparr>)]"
  have nz: "(90::real) \<noteq> 0" by simp
  from missing_edge_is_skipped[OF nz, of ?ps ?m None]
  obtain s where s: "Solution_init ?ps 90 ?m None = Inr s"
    and rq: "\<forall>p \<in> set ?ps. get0 (sol_reqs s) (src p, dst p) = request_volume (src p, dst p) ?ps"
    by blast
  have lg: "critical_log s = [(2, 3)]"
    using s by (auto simp: eval_defs)
  have tlegs: "map (\<lambda>(k, l). (k, sum_volume l, reqs l, vehicles l)) (transport_legs s) =
         [((1, 2), 40, [((1, 3), 40)], 1)]"
    using s by (auto simp: eval_defs)
  have none: "map_of (transport_legs s) (2, 3) = None"
    using s by (auto simp: eval_defs)
  have r: "sol_reqs s = [((1, 3), 40)]"
    using s by (auto simp: eval_defs)
  have g: "get0 (sol_reqs s) (1, 3) = request_volume (1, 3) ?ps"
    using rq by simp
  show ?thesis by (intro exI[of _ s] conjI s lg tlegs none r g)
qed

subsection \<open>Vehicle utilization\<close>

text \<open>
  Claim C6. For every flow set with non-negative volumes and every vehicle capacity for
  which the constructor returns an analyzer, \<open>vehicle_utilization\<close> is 0 when
  \<open>total_vehicles\<close> is 0 and otherwise the minimum of
  \<open>total_volume / (total_vehicles * vehicle_capacity) * 100\<close> and 100, the divisor
  being nonzero; so it never exceeds 100.
\<close>

theorem vehicle_utilization_clamped:
  assumes "\<forall>p \<in> set ps. 0 \<le> volume p" and "Solution_init ps vcap m od = Inr s"
  shows "vehicle_utilization s =
           (if total_vehicles s = 0 then 0
            else min (total_volume s / (of_int (total_vehicles s) * vehicle_capacity s) * 100) 100) \<and>
         vehicle_utilization s \<le> 100 \<and>
         (total_vehicles s \<noteq> 0 \<longrightarrow> of_int (total_vehicles s) * vehicle_capacity s \<noteq> 0)"
proof -
  have vc: "vehicle_capacity s = vcap" by (rule Solution_init_Inr(2)[OF assms(2)])
  let ?cap = "real_of_int (total_vehicles s) * vcap"
  have pos: "0 < ?cap \<longleftrightarrow> total_vehicles s \<noteq> 0"
  proof (cases "vcap = 0")
    case True
    then show ?thesis using total_vehicles_sign[OF assms] by simp
  next
    case False
    show ?thesis
    proof (cases "0 < vcap")
      case True
      then have "0 \<le> total_vehicles s" using total_vehicles_sign[OF assms] by blast
      then show ?thesis using True by (auto simp: zero_less_mult_iff)
    next
      case neg: False
      then have n: "vcap < 0" using False by simp
      then have "total_vehicles s \<le> 0" using total_vehicles_sign[OF assms] by blast
      then show ?thesis using n by (auto simp: zero_less_mult_iff)
    qed
  qed
  have u: "vehicle_utilization s =
           min (if 0 < ?cap then total_volume s / ?cap * 100 else 0) 100"
    by (rule Solution_init_metrics(2)[OF assms(2)])
  have 1: "vehicle_utilization s =
           (if total_vehicles s = 0 then 0
            else min (total_volume s / (of_int (total_vehicles s) * vehicle_capacity s) * 100) 100)"
    unfolding u vc using pos by simp
  have 2: "vehicle_utilization s \<le> 100" unfolding u by simp
  have 3: "total_vehicles s \<noteq> 0 \<longrightarrow> of_int (total_vehicles s) * vehicle_capacity s \<noteq> 0"
    unfolding vc using pos by auto
  show ?thesis using 1 2 3 by blast
qed

theorem vehicle_utilization_clamped_witness:
  "\<exists>s. Solution_init [\<lparr>src = 1::int, dst = 2, volume = 90, path_nodes = [1, 2]\<rparr>,
                        \<lparr>src = 3, dst = 4, volume = 90, path_nodes = [3, 4]\<rparr>] 90
          [((1, 2), \<lparr>row_distance = 1000, row_time = 60, price_per_km = 2\<rparr>)] None = Inr s \<and>
       total_volume s = 180 \<and> total_vehicles s = 1 \<and> vehicle_capacity s = 90 \<and>
       vehicle_utilization s = min (180 / (1 * 90) * 100) 100 \<and> vehicle_utilization s = 100"
proof -
  let ?ps = "[\<lparr>src = 1::int, dst = 2, volume = 90, path_nodes = [1, 2]\<rparr>,
              \<lparr>src = 3, dst = 4, volume = 90, path_nodes = [3, 4]\<rparr>]"
  let ?m = "[((1::int, 2::int), \<lparr>row_distance = 1000, row_time = 60, price_per_km = 2\<rparr>)]"
  obtain s where s: "Solution_init ?ps 90 ?m None = Inr s"
    using Solution_init_total[of 90 ?ps ?m None] by auto
  have nn: "\<forall>p \<in> set ?ps. 0 \<le> volume p" by simp
  have tv: "total_volume s = 180" using s by (auto simp: eval_defs)
  have tn: "total_vehicles s = 1" using s by (auto simp: eval_defs)
  have vc: "vehicle_capacity s = 90" by (rule Solution_init_Inr(2)[OF s])
  have u: "vehicle_utilization s = min (180 / (1 * 90) * 100) 100"
    using vehicle_utilization_clamped[OF nn s] by (simp add: tv tn vc)
  have u2: "vehicle_utilization s = 100" unfolding u by simp
  show ?thesis by (intro exI[of _ s] conjI s tv tn vc u u2)
qed

subsection \<open>Ratio metrics and division by zero\<close>

text \<open>
  Claim C7, as stated, says that construction never fails by division by zero, and that
  the two ratios over \<open>total_volume\<close> are the quotient unless \<open>total_volume\<close> is 0.
  With a vehicle capacity of 0 and one flow over an edge of \<open>matrix_df\<close> the second
  loop of \<open>_reconstruct_transport_legs_from_paths\<close> divides by the capacity and the
  constructor raises \<open>ZeroDivisionError\<close>. And the guards of the two ratios are
  \<open>> 0\<close>: for one flow of volume -100 the total volume is -100 and the total time
  -60, yet \<open>avg_delivery_time_per_volume\<close> is 0 and \<open>cost_per_cubic_meter\<close> is
  infinity.
\<close>

theorem zero_capacity_division_counterexample:
  "Solution_init [\<lparr>src = 1::int, dst = 2, volume = 5, path_nodes = [1, 2]\<rparr>] 0
     [((1, 2), \<lparr>row_distance = 1000, row_time = 60, price_per_km = 2\<rparr>)] None
   = Inl ZeroDivisionError \<and>
   map_sum id total_volume
     (Solution_init [\<lparr>src = 1::int, dst = 2, volume = -100, path_nodes = [1, 2]\<rparr>] 90
        [((1, 2), \<lparr>row_distance = 1000, row_time = 60, price_per_km = 2\<rparr>)] None)
   = Inr (-100) \<and>
   map_sum id total_time
     (Solution_init [\<lparr>src = 1::int, dst = 2, volume = -100, path_nodes = [1, 2]\<rparr>] 90
        [((1, 2), \<lparr>row_distance = 1000, row_time = 60, price_per_km = 2\<rparr>)] None)
   = Inr (-60) \<and>
   map_sum id avg_delivery_time_per_volume
     (Solution_init [\<lparr>src = 1::int, dst = 2, volume = -100, path_nodes = [1, 2]\<rparr>] 90
        [((1, 2), \<lparr>row_distance = 1000, row_time = 60, price_per_km = 2\<rparr>)] None)
   = Inr 0 \<and>
   map_sum id cost_per_cubic_meter
     (Solution_init [\<lparr>src = 1::int, dst = 2, volume = -100, path_nodes = [1, 2]\<rparr>] 90
        [((1, 2), \<lparr>row_distance = 1000, row_time = 60, price_per_km = 2\<rparr>)] None)
   = Inr PosInf"
  by (simp add: eval_defs)

text \<open>
  Claim C7, amended. The constructor raises \<open>ZeroDivisionError\<close> exactly when the
  vehicle capacity is 0 and some flow has an edge that is in \<open>matrix_df\<close>. In every
  other case it returns an analyzer, no division of the metrics raising, in which
  \<open>avg_delivery_time_per_req\<close> is \<open>total_time\<close> divided by the number of distinct
  request keys, and 0 when there are no flows; \<open>avg_delivery_time_per_volume\<close> is
  \<open>total_time / total_volume\<close> when \<open>total_volume\<close> is positive, and 0 otherwise;
  \<open>cost_per_cubic_meter\<close> is \<open>total_cost / total_volume\<close> when \<open>total_volume\<close>
  is positive, and infinity otherwise. For flows with non-negative volumes, otherwise
  means that \<open>total_volume\<close> is 0.
\<close>

theorem ratio_kpis_total:
  "(Solution_init ps vcap m od = Inl ZeroDivisionError \<longleftrightarrow>
      vcap = 0 \<and> has_resolvable_edge m ps) \<and>
   (\<not> (vcap = 0 \<and> has_resolvable_edge m ps) \<longrightarrow>
      (\<exists>s. Solution_init ps vcap m od = Inr s \<and>
         avg_delivery_time_per_req s =
           (if ps = [] then 0 else total_time s / of_nat (card (request_key ` set ps))) \<and>
         avg_delivery_time_per_volume s =
           (if 0 < total_volume s then total_time s / total_volume s else 0) \<and>
         cost_per_cubic_meter s =
           (if 0 < total_volume s then Finite (total_cost s / total_volume s) else PosInf) \<and>
         ((\<forall>p \<in> set ps. 0 \<le> volume p) \<longrightarrow>
            avg_delivery_time_per_volume s =
              (if total_volume s = 0 then 0 else total_time s / total_volume s) \<and>
            cost_per_cubic_meter s =
              (if total_volume s = 0 then PosInf else Finite (total_cost s / total_volume s)))))"
proof (intro conjI impI)
  show "Solution_init ps vcap m od = Inl ZeroDivisionError \<longleftrightarrow>
      vcap = 0 \<and> has_resolvable_edge m ps"
    by (rule Solution_init_fails_iff)
next
  assume ok: "\<not> (vcap = 0 \<and> has_resolvable_edge m ps)"
  obtain s where s: "Solution_init ps vcap m od = Inr s"
    using Solution_init_succeeds[OF ok] by blast
  have rq: "sol_reqs s = reconstruct_reqs_from_paths ps" by (rule Solution_init_Inr(3)[OF s])
  have 1: "avg_delivery_time_per_req s =
       (if ps = [] then 0 else total_time s / of_nat (card (request_key ` set ps)))"
    unfolding Solution_init_metrics(3)[OF s] rq by (simp add: reqs_empty length_reqs)
  have sm: "sum_list (map snd (sol_reqs s)) = total_volume s"
    unfolding rq Solution_init_Inr(4)[OF s] by (rule sum_reqs)
  have 2: "avg_delivery_time_per_volume s =
       (if 0 < total_volume s then total_time s / total_volume s else 0)"
    unfolding Solution_init_Inr(6)[OF s] sm ..
  have 3: "cost_per_cubic_meter s =
       (if 0 < total_volume s then Finite (total_cost s / total_volume s) else PosInf)"
    by (rule Solution_init_metrics(4)[OF s])
  have 4: "(\<forall>p \<in> set ps. 0 \<le> volume p) \<longrightarrow>
            avg_delivery_time_per_volume s =
              (if total_volume s = 0 then 0 else total_time s / total_volume s) \<and>
            cost_per_cubic_meter s =
              (if total_volume s = 0 then PosInf else Finite (total_cost s / total_volume s))"
  proof
    assume nn: "\<forall>p \<in> set ps. 0 \<le> volume p"
    have "0 \<le> total_volume s" by (rule total_volume_nonneg[OF nn s])
    then have pos: "0 < total_volume s \<longleftrightarrow> total_volume s \<noteq> 0" by auto
    show "avg_delivery_time_per_volume s =
              (if total_volume s = 0 then 0 else total_time s / total_volume s) \<and>
            cost_per_cubic_meter s =
              (if total_volume s = 0 then PosInf else Finite (total_cost s / total_volume s))"
      unfolding 2 3 using pos by simp
  qed
  show "\<exists>s. Solution_init ps vcap m od = Inr s \<and>
         avg_delivery_time_per_req s =
           (if ps = [] then 0 else total_time s / of_nat (card (request_key ` set ps))) \<and>
         avg_delivery_time_per_volume s =
           (if 0 < total_volume s then total_time s / total_volume s else 0) \<and>
         cost_per_cubic_meter s =
           (if 0 < total_volume s then Finite (total_cost s / total_volume s) else PosInf) \<and>
         ((\<forall>p \<in> set ps. 0 \<le> volume p) \<longrightarrow>
            avg_delivery_time_per_volume s =
              (if total_volume s = 0 then 0 else total_time s / total_volume s) \<and>
            cost_per_cubic_meter s =
              (if total_volume s = 0 then PosInf else Finite (total_cost s / total_volume s)))"
    by (intro exI[of _ s] conjI s 1 2 3 4)
qed

theorem ratio_kpis_total_witness:
  "(\<exists>s. Solution_init ([] :: int path list) 90 [] None = Inr s \<and>
        avg_delivery_time_per_req s = 0 \<and> avg_delivery_time_per_volume s = 0 \<and>
        cost_per_cubic_meter s = PosInf) \<and>
   (\<exists>s. Solution_init [\<lparr>src = 1::int, dst = 2, volume = 50, path_nodes = [1, 2]\<rparr>,
                         \<lparr>src = 1, dst = 2, volume = 50, path_nodes = [1, 2]\<rparr>] 90
           [((1, 2), \<lparr>row_distance = 1000, row_time = 60, price_per_km = 2\<rparr>)] None = Inr s \<and>
        total_time s = 120 \<and> total_volume s = 100 \<and> total_cost s = 4 \<and>
        avg_delivery_time_per_req s = 120 \<and> avg_delivery_time_per_volume s = 120 / 100 \<and>
        cost_per_cubic_meter s = Finite (4 / 100)) \<and>
   Solution_init [\<lparr>src = 1::int, dst = 2, volume = 50, path_nodes = [1, 2]\<rparr>] 0
           [((1, 2), \<lparr>row_distance = 1000, row_time = 60, price_per_km = 2\<rparr>)] None
     = Inl ZeroDivisionError \<and>
   (\<exists>s. Solution_init [\<lparr>src = 1::int, dst = 2, volume = 50, path_nodes = [1, 2]\<rparr>] 0
           [((2, 1), \<lparr>row_distance = 1000, row_time = 60, price_per_km = 2\<rparr>)] None = Inr s \<and>
        total_volume s = 50 \<and> avg_delivery_time_per_volume s = total_time s / 50)"
proof (intro conjI)
  let ?e = "[] :: int path list"
  have ok: "\<not> ((90::real) = 0 \<and> has_resolvable_edge [] ?e)" by simp
  have nn: "\<forall>p \<in> set ?e. 0 \<le> volume p" by simp
  from ratio_kpis_total[of ?e 90 "[]" None] ok
  obtain s where s: "Solution_init ?e 90 [] None = Inr s"
    and 1: "avg_delivery_time_per_req s = 0"
    and 2: "avg_delivery_time_per_volume s =
       (if 0 < total_volume s then total_time s / total_volume s else 0)"
    and 3: "cost_per_cubic_meter s =
       (if 0 < total_volume s then Finite (total_cost s / total_volume s) else PosInf)"
    by auto
  have tv: "total_volume s = 0" using Solution_init_Inr(4)[OF s] by simp
  show "\<exists>s. Solution_init ?e 90 [] None = Inr s \<and>
        avg_delivery_time_per_req s = 0 \<and> avg_delivery_time_per_volume s = 0 \<and>
        cost_per_cubic_meter s = PosInf"
    using s 1 2 3 tv by (intro exI[of _ s]) simp
next
  let ?ps = "[\<lparr>src = 1::int, dst = 2, volume = 50, path_nodes = [1, 2]\<rparr>,
              \<lparr>src = 1, dst = 2, volume = 50, path_nodes = [1, 2]\<rparr>]"
  let ?m = "[((1::int, 2::int), \<lparr>row_distance = 1000, row_time = 60, price_per_km = 2\<rparr>)]"
  have ok: "\<not> ((90::real) = 0 \<and> has_resolvable_edge ?m ?ps)" by simp
  from ratio_kpis_total[of ?ps 90 ?m None] ok
  obtain s where s: "Solution_init ?ps 90 ?m None = Inr s"
    and 1: "avg_delivery_time_per_req s =
       (if ?ps = [] then 0 else total_time s / of_nat (card (request_key ` set ?ps)))"
    and 2: "avg_delivery_time_per_volume s =
       (if 0 < total_volume s then total_time s / total_volume s else 0)"
    and 3: "cost_per_cubic_meter s =
       (if 0 < total_volume s then Finite (total_cost s / total_volume s) else PosInf)"
    by blast
  have tt: "total_time s = 120" using s by (auto simp: eval_defs)
  have tv: "total_volume s = 100" using s by (auto simp: eval_defs)
  have tc: "total_cost s = 4" using s by (auto simp: eval_defs)
  have a1: "avg_delivery_time_per_req s = 120"
    using 1 by (simp add: tt request_key_def)
  have a2: "avg_delivery_time_per_volume s = 120 / 100"
    using 2 by (simp add: tt tv)
  have a3: "cost_per_cubic_meter s = Finite (4 / 100)"
    using 3 by (simp add: tc tv)
  show "\<exists>s. Solution_init ?ps 90 ?m None = Inr s \<and>
        total_time s = 120 \<and> total_volume s = 100 \<and> total_cost s = 4 \<and>
        avg_delivery_time_per_req s = 120 \<and> avg_delivery_time_per_volume s = 120 / 100 \<and>
        cost_per_cubic_meter s = Finite (4 / 100)"
    by (intro exI[of _ s] conjI s tt tv tc a1 a2 a3)
next
  let ?ps = "[\<lparr>src = 1::int, dst = 2, volume = 50, path_nodes = [1, 2]\<rparr>]"
  let ?m = "[((1::int, 2::int), \<lparr>row_distance = 1000, row_time = 60, price_per_km = 2\<rparr>)]"
  have r: "has_resolvable_edge ?m ?ps"
    by (simp add: has_resolvable_edge_def edges_of_def)
  show "Solution_init ?ps 0 ?m None = Inl ZeroDivisionError"
    using ratio_kpis_total[of ?ps 0 ?m None] r by blast
next
  let ?ps = "[\<lparr>src = 1::int, dst = 2, volume = 50, path_nodes = [1, 2]\<rparr>]"
  let ?m = "[((2::int, 1::int), \<lparr>row_distance = 1000, row_time = 60, price_per_km = 2\<rparr>)]"
  have r: "\<not> ((0::real) = 0 \<and> has_resolvable_edge ?m ?ps)"
    by (simp add: has_resolvable_edge_def edges_of_def)
  from ratio_kpis_total[of ?ps 0 ?m None] r
  obtain s where s: "Solution_init ?ps 0 ?m None = Inr s"
    and 2: "avg_delivery_time_per_volume s =
       (if 0 < total_volume s then total_time s / total_volume s else 0)"
    by blast
  have tv: "total_volume s = 50" using Solution_init_Inr(4)[OF s] by simp
  show "\<exists>s. Solution_init ?ps 0 ?m None = Inr s \<and>
        total_volume s = 50 \<and> avg_delivery_time_per_volume s = total_time s / 50"
    using s 2 tv by (intro exI[of _ s]) simp
qed

subsection \<open>Coverage check\<close>

text \<open>
  Claim C4. For every reference table and every analyzer, \<open>validate_coverage\<close> returns,
  in the order of the table, one finding for each entry whose actual volume (the sum of
  the volumes of the flows of that request, 0 when there is none) differs from the
  expected volume by more than 1e-3, and none for the other entries; the finding holds
  the key, the expected and the actual volume. Expected 50 with actual 49.9995 gives no
  finding, with actual 49.9 exactly one.
\<close>

theorem coverage_findings:
  "validate_coverage s df_tare =
     map (coverage_finding (paths s)) (filter (exceeds_tolerance (paths s)) df_tare) \<and>
   (request_volume (X, Y) (paths s) = 499995 / 10000 \<longrightarrow>
      validate_coverage s [((X, Y), 50)] = []) \<and>
   (request_volume (X, Y) (paths s) = 499 / 10 \<longrightarrow>
      validate_coverage s [((X, Y), 50)] = [CoverageError X Y 50 (499 / 10)])"
  by (simp add: validate_coverage_eq exceeds_tolerance_def coverage_finding_def)

theorem coverage_findings_witness:
  "(\<exists>s. Solution_init [\<lparr>src = 1::int, dst = 2, volume = 25, path_nodes = [1, 2]\<rparr>,
                         \<lparr>src = 1, dst = 2, volume = 249995 / 10000, path_nodes = [1, 3, 2]\<rparr>] 90
           [] None = Inr s \<and>
        validate_coverage s [((1, 2), 50)] = []) \<and>
   (\<exists>s. Solution_init [\<lparr>src = 1::int, dst = 2, volume = 25, path_nodes = [1, 2]\<rparr>,
                         \<lparr>src = 1, dst = 2, volume = 249 / 10, path_nodes = [1, 3, 2]\<rparr>] 90
           [] None = Inr s \<and>
        validate_coverage s [((1, 2), 50), ((7, 8), 3), ((7, 9), 0)] =
          [CoverageError 1 2 50 (499 / 10), CoverageError 7 8 3 0])"
proof
  let ?ps = "[\<lparr>src = 1::int, dst = 2, volume = 25, path_nodes = [1, 2]\<rparr>,
              \<lparr>src = 1, dst = 2, volume = 249995 / 10000, path_nodes = [1, 3, 2]\<rparr>]"
  obtain s where s: "Solution_init ?ps 90 [] None = Inr s"
    using Solution_init_total[of 90 ?ps "[]" None] by auto
  have p: "paths s = ?ps" by (rule Solution_init_Inr(1)[OF s])
  have v: "request_volume (1, 2) (paths s) = 499995 / 10000"
    by (simp add: p request_volume_def request_key_def)
  have "validate_coverage s [((1, 2), 50)] = []"
    using coverage_findings[of s "[]" 1 2] v by blast
  with s show "\<exists>s. Solution_init ?ps 90 [] None = Inr s \<and> validate_coverage s [((1, 2), 50)] = []"
    by blast
next
  let ?ps = "[\<lparr>src = 1::int, dst = 2, volume = 25, path_nodes = [1, 2]\<rparr>,
              \<lparr>src = 1, dst = 2, volume = 249 / 10, path_nodes = [1, 3, 2]\<rparr>]"
  let ?df = "[((1::int, 2::int), 50::real), ((7, 8), 3), ((7, 9), 0)]"
  obtain s where s: "Solution_init ?ps 90 [] None = Inr s"
    using Solution_init_total[of 90 ?ps "[]" None] by auto
  have p: "paths s = ?ps" by (rule Solution_init_Inr(1)[OF s])
  have "validate_coverage s ?df = map (coverage_finding (paths s)) (filter (exceeds_tolerance (paths s)) ?df)"
    using coverage_findings[of s ?df 1 2] by blast
  then have "validate_coverage s ?df = [CoverageError 1 2 50 (499 / 10), CoverageError 7 8 3 0]"
    by (simp add: p exceeds_tolerance_def coverage_finding_def request_volume_def request_key_def)
  with s show "\<exists>s. Solution_init ?ps 90 [] None = Inr s \<and>
        validate_coverage s ?df = [CoverageError 1 2 50 (499 / 10), CoverageError 7 8 3 0]"
    by blast
qed

subsection \<open>Node capacity check\<close>

text \<open>
  Claim C5. The findings of \<open>_calculate_transfer_costs\<close> are, node by node in the
  order of the node table, an inbound finding when the node is a transit node of some
  flow and its inbound transit volume is greater than its \<open>transfer_max\<close>, and an
  outbound finding when it is a transit node and its outbound transit volume is
  greater; each finding holds the node, the direction, the volume and the capacity. For
  a table with non-negative capacities that is one finding for each direction whose
  volume exceeds the capacity, and none for a direction within the limit. The source
  and the destination of a flow do not count: with capacity 10 and 15 passing through
  node 5 there is exactly one inbound finding, with the values 15 and 10, and none for
  node 1, from which the same 15 set out.
\<close>

theorem node_capacity_findings:
  "snd (calculate_transfer_costs (Some offs) ps) =
     concat (map (\<lambda>(n, r).
       (if is_transit_node n ps \<and> inbound_volume n ps > transfer_max r
        then [TransferViolation n Inbound (inbound_volume n ps) (transfer_max r)] else []) @
       (if is_transit_node n ps \<and> outbound_volume n ps > transfer_max r
        then [TransferViolation n Outbound (outbound_volume n ps) (transfer_max r)] else [])) offs) \<and>
   ((\<forall>(n, r) \<in> set offs. 0 \<le> transfer_max r) \<longrightarrow>
    snd (calculate_transfer_costs (Some offs) ps) =
     concat (map (\<lambda>(n, r).
       (if inbound_volume n ps > transfer_max r
        then [TransferViolation n Inbound (inbound_volume n ps) (transfer_max r)] else []) @
       (if outbound_volume n ps > transfer_max r
        then [TransferViolation n Outbound (outbound_volume n ps) (transfer_max r)] else [])) offs))"
proof (intro conjI impI)
  have "map (node_violations (accumulate (transit_events ps) []) (accumulate (transit_events ps) [])) offs =
        map (\<lambda>(n, r).
       (if is_transit_node n ps \<and> inbound_volume n ps > transfer_max r
        then [TransferViolation n Inbound (inbound_volume n ps) (transfer_max r)] else []) @
       (if is_transit_node n ps \<and> outbound_volume n ps > transfer_max r
        then [TransferViolation n Outbound (outbound_volume n ps) (transfer_max r)] else [])) offs"
    by (intro map_cong) (auto simp: node_violations_exact)
  then show "snd (calculate_transfer_costs (Some offs) ps) =
     concat (map (\<lambda>(n, r).
       (if is_transit_node n ps \<and> inbound_volume n ps > transfer_max r
        then [TransferViolation n Inbound (inbound_volume n ps) (transfer_max r)] else []) @
       (if is_transit_node n ps \<and> outbound_volume n ps > transfer_max r
        then [TransferViolation n Outbound (outbound_volume n ps) (transfer_max r)] else [])) offs)"
    by (simp only: violations_unfold)
next
  assume c: "\<forall>(n, r) \<in> set offs. 0 \<le> transfer_max r"
  have "map (node_violations (accumulate (transit_events ps) []) (accumulate (transit_events ps) [])) offs =
        map (\<lambda>(n, r).
       (if inbound_volume n ps > transfer_max r
        then [TransferViolation n Inbound (inbound_volume n ps) (transfer_max r)] else []) @
       (if outbound_volume n ps > transfer_max r
        then [TransferViolation n Outbound (outbound_volume n ps) (transfer_max r)] else [])) offs"
    using c by (intro map_cong) (auto simp: node_violations_eq)
  then show "snd (calculate_transfer_costs (Some offs) ps) =
     concat (map (\<lambda>(n, r).
       (if inbound_volume n ps > transfer_max r
        then [TransferViolation n Inbound (inbound_volume n ps) (transfer_max r)] else []) @
       (if outbound_volume n ps > transfer_max r
        then [TransferViolation n Outbound (outbound_volume n ps) (transfer_max r)] else [])) offs)"
    by (simp only: violations_unfold)
qed

theorem node_capacity_findings_witness:
  "snd (calculate_transfer_costs
     (Some [(1::int, \<lparr>transfer_price = 1, transfer_max = 10\<rparr>),
            (5, \<lparr>transfer_price = 1, transfer_max = 10\<rparr>),
            (6, \<lparr>transfer_price = 1, transfer_max = 10\<rparr>),
            (2, \<lparr>transfer_price = 1, transfer_max = 5\<rparr>),
            (7, \<lparr>transfer_price = 1, transfer_max = 10\<rparr>)])
     [\<lparr>src = 1, dst = 2, volume = 9, path_nodes = [1, 5, 2]\<rparr>,
      \<lparr>src = 1, dst = 3, volume = 6, path_nodes = [1, 5, 6, 3]\<rparr>]) =
   [TransferViolation 5 Inbound 15 10, TransferViolation 5 Outbound 15 10] \<and>
   inbound_volume (5::int) [\<lparr>src = 1, dst = 2, volume = 9, path_nodes = [1, 5, 2]\<rparr>,
      \<lparr>src = 1, dst = 3, volume = 6, path_nodes = [1, 5, 6, 3]\<rparr>] = 15 \<and>
   inbound_volume (1::int) [\<lparr>src = 1, dst = 2, volume = 9, path_nodes = [1, 5, 2]\<rparr>,
      \<lparr>src = 1, dst = 3, volume = 6, path_nodes = [1, 5, 6, 3]\<rparr>] = 0"
proof -
  let ?offs = "[(1::int, \<lparr>transfer_price = 1, transfer_max = 10\<rparr>),
            (5, \<lparr>transfer_price = 1, transfer_max = 10\<rparr>),
            (6, \<lparr>transfer_price = 1, transfer_max = 10\<rparr>),
            (2, \<lparr>transfer_price = 1, transfer_max = 5\<rparr>),
            (7, \<lparr>transfer_price = 1, transfer_max = 10\<rparr>)]"
  let ?ps = "[\<lparr>src = 1::int, dst = 2, volume = 9, path_nodes = [1, 5, 2]\<rparr>,
      \<lparr>src = 1, dst = 3, volume = 6, path_nodes = [1, 5, 6, 3]\<rparr>]"
  have c: "\<forall>(n, r) \<in> set ?offs. 0 \<le> transfer_max r" by simp
  have i: "interior_nodes [1::int, 5, 2] = [5]" "interior_nodes [1::int, 5, 6, 3] = [5, 6]"
    by (simp_all add: interior_nodes_def upt_rec)
  show ?thesis
    using node_capacity_findings[of ?offs ?ps] c
    by (simp add: inbound_volume_def outbound_volume_def is_transit_node_def i)
qed

subsection \<open>Loading the external format\<close>

text \<open>
  Claim C9. For flows that each have at least one leg, \<open>load_from_external_format\<close>
  raises \<open>ValueError\<close> if and only if the reconstructed path of some flow does not
  start at its src\_office\_id or does not end at its dst\_office\_id. When it returns an
  analyzer, the paths are the reconstructed paths of the flows, in order, each starting
  at its src and ending at its dst; and it does return one when all ends match and the
  vehicle capacity is not zero.
\<close>

theorem external_format_endpoints:
  assumes "\<forall>f \<in> set fl. legs f \<noteq> []"
  shows "(load_from_external_format (Some fl) m od vcap = Inl ValueError \<longleftrightarrow>
            (\<exists>f \<in> set fl. hd (reconstructed_path f) \<noteq> src_office_id f \<or>
                           last (reconstructed_path f) \<noteq> dst_office_id f)) \<and>
         (\<forall>s. load_from_external_format (Some fl) m od vcap = Inr s \<longrightarrow>
            paths s = map path_of_flow fl \<and>
            (\<forall>p \<in> set (paths s). path_nodes p \<noteq> [] \<and>
               hd (path_nodes p) = src p \<and> last (path_nodes p) = dst p)) \<and>
         ((\<forall>f \<in> set fl. endpoints_match f) \<and> vcap \<noteq> 0 \<longrightarrow>
            (\<exists>s. load_from_external_format (Some fl) m od vcap = Inr s))"
proof (cases "\<forall>f \<in> set fl. endpoints_match f")
  case True
  have ld: "load_from_external_format (Some fl) m od vcap = Solution_init (map path_of_flow fl) vcap m od"
    by (simp add: load_from_external_format_def flows_to_paths_eq[OF assms] True)
  have 1: "load_from_external_format (Some fl) m od vcap \<noteq> Inl ValueError"
    unfolding ld using Solution_init_error[of "map path_of_flow fl" vcap m od ValueError] by auto
  have 2: "\<not> (\<exists>f \<in> set fl. hd (reconstructed_path f) \<noteq> src_office_id f \<or>
                           last (reconstructed_path f) \<noteq> dst_office_id f)"
    using True by (auto simp: endpoints_match_def)
  have 3: "\<forall>s. load_from_external_format (Some fl) m od vcap = Inr s \<longrightarrow>
            paths s = map path_of_flow fl \<and>
            (\<forall>p \<in> set (paths s). path_nodes p \<noteq> [] \<and>
               hd (path_nodes p) = src p \<and> last (path_nodes p) = dst p)"
  proof (intro allI impI)
    fix s assume "load_from_external_format (Some fl) m od vcap = Inr s"
    then have "paths s = map path_of_flow fl"
      unfolding ld by (rule Solution_init_Inr(1))
    then show "paths s = map path_of_flow fl \<and>
            (\<forall>p \<in> set (paths s). path_nodes p \<noteq> [] \<and>
               hd (path_nodes p) = src p \<and> last (path_nodes p) = dst p)"
      using True by (auto simp: endpoints_match_def path_of_flow_def reconstructed_path_def)
  qed
  have 4: "vcap \<noteq> 0 \<longrightarrow> (\<exists>s. load_from_external_format (Some fl) m od vcap = Inr s)"
    unfolding ld using Solution_init_total by blast
  show ?thesis using 1 2 3 4 by blast
next
  case False
  have ld: "load_from_external_format (Some fl) m od vcap = Inl ValueError"
    by (simp add: load_from_external_format_def flows_to_paths_eq[OF assms] False)
  have 2: "\<exists>f \<in> set fl. hd (reconstructed_path f) \<noteq> src_office_id f \<or>
                           last (reconstructed_path f) \<noteq> dst_office_id f"
    using False by (auto simp: endpoints_match_def)
  show ?thesis using ld 2 False by auto
qed

theorem external_format_endpoints_witness:
  "load_from_external_format
     (Some [\<lparr>src_office_id = 1::int, dst_office_id = 3, avg_day_polybox_qty = 5,
             legs = [\<lparr>from_office_id = 1, to_office_id = 2\<rparr>,
                     \<lparr>from_office_id = 2, to_office_id = 4\<rparr>]\<rparr>]) [] None 90 = Inl ValueError \<and>
   (\<exists>s. load_from_external_format
     (Some [\<lparr>src_office_id = 1::int, dst_office_id = 3, avg_day_polybox_qty = 5,
             legs = [\<lparr>from_office_id = 1, to_office_id = 2\<rparr>,
                     \<lparr>from_office_id = 2, to_office_id = 3\<rparr>]\<rparr>]) [] None 90 = Inr s \<and>
      paths s = [\<lparr>src = 1, dst = 3, volume = 5, path_nodes = [1, 2, 3]\<rparr>])"
proof
  let ?fl = "[\<lparr>src_office_id = 1::int, dst_office_id = 3, avg_day_polybox_qty = 5,
             legs = [\<lparr>from_office_id = 1, to_office_id = 2\<rparr>,
                     \<lparr>from_office_id = 2, to_office_id = 4\<rparr>]\<rparr>]"
  have ne: "\<forall>f \<in> set ?fl. legs f \<noteq> []" by simp
  show "load_from_external_format (Some ?fl) [] None 90 = Inl ValueError"
    using external_format_endpoints[OF ne, of "[]" None 90]
    by (simp add: reconstructed_path_def)
next
  let ?fl = "[\<lparr>src_office_id = 1::int, dst_office_id = 3, avg_day_polybox_qty = 5,
             legs = [\<lparr>from_office_id = 1, to_office_id = 2\<rparr>,
                     \<lparr>from_office_id = 2, to_office_id = 3\<rparr>]\<rparr>]"
  have ne: "\<forall>f \<in> set ?fl. legs f \<noteq> []" by simp
  have em: "\<forall>f \<in> set ?fl. endpoints_match f"
    by (simp add: endpoints_match_def reconstructed_path_def)
  have nz: "(90::real) \<noteq> 0" by simp
  from external_format_endpoints[OF ne, of "[]" None 90] em nz
  obtain s where s: "load_from_external_format (Some ?fl) [] None 90 = Inr s"
    and p: "paths s = map path_of_flow ?fl"
    by blast
  have "paths s = [\<lparr>src = 1, dst = 3, volume = 5, path_nodes = [1, 2, 3]\<rparr>]"
    unfolding p by (simp add: path_of_flow_def reconstructed_path_def)
  with s show "\<exists>s. load_from_external_format (Some ?fl) [] None 90 = Inr s \<and>
      paths s = [\<lparr>src = 1, dst = 3, volume = 5, path_nodes = [1, 2, 3]\<rparr>]"
    by blast
qed

subsection \<open>Export and re-import\<close>

text \<open>
  Claim C8, as stated, holds for every analyzer and for both forms of re-import. Three
  closed instances show otherwise. (1) The analyzer of the empty flow set is constructed,
  but \<open>save_to_csv\<close> writes no paths.csv for it (\<open>if self.paths:\<close>), so
  \<open>load_from_csv\<close> raises \<open>ValueError\<close> and \<open>load_solution\<close> raises
  \<open>FileNotFoundError\<close>. (2) For one flow of volume 50 from office 1 to office 2 the
  document of \<open>save_to_json\<close> has no key flows, and \<open>load_from_external_format\<close>
  makes of it the analyzer of the empty flow set: total volume 0 instead of 50. (3) For
  the same flow \<open>save_to_csv\<close> writes the path as the text \<open>[1, 2]\<close>;
  \<open>load_from_csv\<close> hands the text to the constructor, which takes its six characters
  for the nodes and finds none of the five edges in \<open>matrix_df\<close>: 0 vehicles
  instead of 1.
\<close>

theorem export_reimport_counterexample:
  "map_sum id cost_per_cubic_meter (Solution_init ([] :: node_id path list) 90 [] None) = Inr PosInf \<and>
   save_to_csv_paths (projr (Solution_init [] 90 [] None)) = None \<and>
   load_from_csv None 90 [] None = Inl ValueError \<and>
   load_solution_csv None = Inl FileNotFoundError \<and>
   map_sum id total_volume
     (Solution_init [\<lparr>src = Office 1, dst = Office 2, volume = 50, path_nodes = [Office 1, Office 2]\<rparr>]
        90 [((Office 1, Office 2), \<lparr>row_distance = 1000, row_time = 60, price_per_km = 2\<rparr>)] None)
     = Inr 50 \<and>
   map_sum id total_vehicles
     (Solution_init [\<lparr>src = Office 1, dst = Office 2, volume = 50, path_nodes = [Office 1, Office 2]\<rparr>]
        90 [((Office 1, Office 2), \<lparr>row_distance = 1000, row_time = 60, price_per_km = 2\<rparr>)] None)
     = Inr 1 \<and>
   map_sum id total_volume
     (load_from_external_format
        (doc_flows (save_to_json (projr
           (Solution_init [\<lparr>src = Office 1, dst = Office 2, volume = 50,
                            path_nodes = [Office 1, Office 2]\<rparr>]
              90 [((Office 1, Office 2), \<lparr>row_distance = 1000, row_time = 60, price_per_km = 2\<rparr>)]
              None))))
        [((Office 1, Office 2), \<lparr>row_distance = 1000, row_time = 60, price_per_km = 2\<rparr>)] None 90)
     = Inr 0 \<and>
   save_to_csv_paths (projr
     (Solution_init [\<lparr>src = Office 1, dst = Office 2, volume = 50, path_nodes = [Office 1, Office 2]\<rparr>]
        90 [((Office 1, Office 2), \<lparr>row_distance = 1000, row_time = 60, price_per_km = 2\<rparr>)] None))
     = Some [\<lparr>row_src = Office 1, row_dst = Office 2, row_volume = 50, row_path_nodes = ''[1, 2]''\<rparr>] \<and>
   map_sum id total_vehicles
     (load_from_csv
        (Some [\<lparr>row_src = Office 1, row_dst = Office 2, row_volume = 50, row_path_nodes = ''[1, 2]''\<rparr>])
        90 [((Office 1, Office 2), \<lparr>row_distance = 1000, row_time = 60, price_per_km = 2\<rparr>)] None)
     = Inr 0 \<and>
   map_sum id critical_log
     (load_from_csv
        (Some [\<lparr>row_src = Office 1, row_dst = Office 2, row_volume = 50, row_path_nodes = ''[1, 2]''\<rparr>])
        90 [((Office 1, Office 2), \<lparr>row_distance = 1000, row_time = 60, price_per_km = 2\<rparr>)] None)
     = Inr [(Str ''['', Str ''1''), (Str ''1'', Str '',''), (Str '','', Str '' ''),
            (Str '' '', Str ''2''), (Str ''2'', Str '']'')]"
proof -
  have d: "str_nat (Suc 0) = ''1''" "str_nat 2 = ''2''"
    by (simp_all add: str_nat.simps digit_of_def char_of_eq_iff)
  show ?thesis
    by (simp add: eval_defs save_to_csv_paths_def load_from_csv_def load_solution_csv_def
        load_from_external_format_def save_to_json_def py_str_list_def py_str_int_def d)
qed

text \<open>
  Claim C8, amended. For an analyzer of a non-empty flow set in which every flow has a
  path of office ids with at least two nodes, from its src to its dst:
  \<open>save_to_csv\<close> writes the flow table, \<open>load_solution\<close> turns it into the external
  format, and \<open>load_from_external_format\<close> with the same matrix, offices and vehicle
  capacity returns the same analyzer, so every metric is the same. For an empty flow
  set no flow table is written, and both loaders raise on the missing file. The document
  of \<open>save_to_json\<close>, given to \<open>load_from_external_format\<close>, always yields the
  analyzer of the empty flow set. What \<open>load_from_csv\<close> makes of a written flow table
  is not part of the statement.
\<close>

theorem csv_roundtrip:
  assumes "Solution_init ps vcap m od = Inr s"
  shows "(ps \<noteq> [] \<and> (\<forall>p \<in> set ps. well_formed_flow p \<and> list_all is_office (path_nodes p)) \<longrightarrow>
            (\<exists>rows data. save_to_csv_paths s = Some rows \<and>
               load_solution_csv (Some rows) = Inr data \<and>
               load_from_external_format data m od vcap = Inr s)) \<and>
         (ps = [] \<longrightarrow>
            save_to_csv_paths s = None \<and> load_from_csv None vcap m od = Inl ValueError \<and>
            load_solution_csv None = Inl FileNotFoundError) \<and>
         load_from_external_format (doc_flows (save_to_json s)) m od vcap = Solution_init [] vcap m od \<and>
         (\<exists>s0. Solution_init [] vcap m od = Inr s0 \<and> paths s0 = [] \<and> transport_legs s0 = [] \<and>
               total_volume s0 = 0 \<and> total_vehicles s0 = 0)"
proof (intro conjI impI)
  assume h: "ps \<noteq> [] \<and> (\<forall>p \<in> set ps. well_formed_flow p \<and> list_all is_office (path_nodes p))"
  have p: "paths s = ps" by (rule Solution_init_Inr(1)[OF assms])
  let ?rows = "map row_of_path ps"
  let ?data = "Some (map flow_of_path ps)"
  have wf: "\<forall>p \<in> set ps. well_formed_flow p" using h by blast
  have off: "\<forall>p \<in> set ps. list_all is_office (path_nodes p)" using h by blast
  have 1: "save_to_csv_paths s = Some ?rows"
    using h by (simp add: save_to_csv_paths_def p row_of_path_def)
  have 2: "load_solution_csv (Some ?rows) = Inr ?data"
    by (simp only: load_solution_csv_def option.case rows_to_flows[OF off])
  have 3: "load_from_external_format ?data m od vcap = Inr s"
    by (simp add: load_from_external_format_def flows_of_paths_load[OF wf] assms)
  show "\<exists>rows data. save_to_csv_paths s = Some rows \<and>
               load_solution_csv (Some rows) = Inr data \<and>
               load_from_external_format data m od vcap = Inr s"
    using 1 2 3 by blast
next
  assume "ps = []"
  then show "save_to_csv_paths s = None"
    by (simp add: save_to_csv_paths_def Solution_init_Inr(1)[OF assms])
next
  show "load_from_csv None vcap m od = Inl ValueError" by (simp add: load_from_csv_def)
next
  show "load_solution_csv None = Inl FileNotFoundError" by (simp add: load_solution_csv_def)
next
  show "load_from_external_format (doc_flows (save_to_json s)) m od vcap = Solution_init [] vcap m od"
    by (simp add: load_from_external_format_def save_to_json_def)
next
  show "\<exists>s0. Solution_init [] vcap m od = Inr s0 \<and> paths s0 = [] \<and> transport_legs s0 = [] \<and>
               total_volume s0 = 0 \<and> total_vehicles s0 = 0"
    by (rule empty_analyzer)
qed

theorem csv_roundtrip_witness:
  "\<exists>s rows data.
     Solution_init [\<lparr>src = Office 1, dst = Office 3, volume = 100,
                      path_nodes = [Office 1, Office 2, Office 3]\<rparr>,
                    \<lparr>src = Office 1, dst = Office 2, volume = 7,
                      path_nodes = [Office 1, Office 2]\<rparr>] 90
       [((Office 1, Office 2), \<lparr>row_distance = 1000, row_time = 60, price_per_km = 2\<rparr>)] None = Inr s \<and>
     total_vehicles s = 2 \<and>
     save_to_csv_paths s = Some rows \<and>
     rows = [\<lparr>row_src = Office 1, row_dst = Office 3, row_volume = 100, row_path_nodes = ''[1, 2, 3]''\<rparr>,
             \<lparr>row_src = Office 1, row_dst = Office 2, row_volume = 7, row_path_nodes = ''[1, 2]''\<rparr>] \<and>
     load_solution_csv (Some rows) = Inr data \<and>
     load_from_external_format data
       [((Office 1, Office 2), \<lparr>row_distance = 1000, row_time = 60, price_per_km = 2\<rparr>)] None 90 = Inr s \<and>
     map_sum id total_volume
       (load_from_external_format (doc_flows (save_to_json s))
          [((Office 1, Office 2), \<lparr>row_distance = 1000, row_time = 60, price_per_km = 2\<rparr>)] None 90)
       = Inr 0"
proof -
  let ?ps = "[\<lparr>src = Office 1, dst = Office 3, volume = 100,
                      path_nodes = [Office 1, Office 2, Office 3]\<rparr>,
                    \<lparr>src = Office 1, dst = Office 2, volume = 7,
                      path_nodes = [Office 1, Office 2]\<rparr>]"
  let ?m = "[((Office 1, Office 2), \<lparr>row_distance = 1000, row_time = 60, price_per_km = 2\<rparr>)]"
  obtain s where s: "Solution_init ?ps 90 ?m None = Inr s"
    using Solution_init_total[of 90 ?ps ?m None] by auto
  have h: "?ps \<noteq> [] \<and> (\<forall>p \<in> set ?ps. well_formed_flow p \<and> list_all is_office (path_nodes p))"
    by (simp add: well_formed_flow_def)
  from csv_roundtrip[OF s] h
  obtain rows data where r: "save_to_csv_paths s = Some rows"
    and d: "load_solution_csv (Some rows) = Inr data"
    and l: "load_from_external_format data ?m None 90 = Inr s"
    by blast
  from csv_roundtrip[OF s]
  obtain s0 where j: "load_from_external_format (doc_flows (save_to_json s)) ?m None 90 = Inr s0"
    and v0: "total_volume s0 = 0"
    by auto
  have j0: "map_sum id total_volume
       (load_from_external_format (doc_flows (save_to_json s)) ?m None 90) = Inr 0"
    by (simp add: j v0)
  have tv: "total_vehicles s = 2" using s by (auto simp: eval_defs)
  have dg: "str_nat (Suc 0) = ''1''" "str_nat 2 = ''2''" "str_nat 3 = ''3''"
    by (simp_all add: str_nat.simps digit_of_def char_of_eq_iff)
  have rv: "rows = [\<lparr>row_src = Office 1, row_dst = Office 3, row_volume = 100, row_path_nodes = ''[1, 2, 3]''\<rparr>,
             \<lparr>row_src = Office 1, row_dst = Office 2, row_volume = 7, row_path_nodes = ''[1, 2]''\<rparr>]"
    using r by (simp add: save_to_csv_paths_def Solution_init_Inr(1)[OF s] py_str_list_def
        py_str_int_def dg)
  show ?thesis by (intro exI[of _ s] exI[of _ rows] exI[of _ data] conjI s tv r rv d l j0)
qed

end
